theory Spec2Isabelle
  imports Main "HOL-Library.Char_ord" "HOL-Library.List_Lexorder"
begin

section \<open>Text\<close>

text \<open>
  Python strings are modelled as lists of 8-bit characters (code points 0 to 255). On
  that range \<open>str.isspace\<close> and the regular-expression class \<^verbatim>\<open>\s\<close> hold for the
  twelve characters below, \<^verbatim>\<open>\d\<close> for the ten ASCII digits and \<^verbatim>\<open>\w\<close> for
  ASCII letters, digits, the underscore and the letters of the upper half.
\<close>

definition is_space :: "char \<Rightarrow> bool" where
  "is_space c = ((of_char c :: nat) \<in> {9, 10, 11, 12, 13, 28, 29, 30, 31, 32, 133, 160})"

definition is_digit :: "char \<Rightarrow> bool" where
  "is_digit c = (c \<in> set ''0123456789'')"

definition is_lower_ascii :: "char \<Rightarrow> bool" where
  "is_lower_ascii c = (c \<in> set ''abcdefghijklmnopqrstuvwxyz'')"

definition is_upper_ascii :: "char \<Rightarrow> bool" where
  "is_upper_ascii c = (c \<in> set ''ABCDEFGHIJKLMNOPQRSTUVWXYZ'')"

definition is_alnum_ascii :: "char \<Rightarrow> bool" where
  "is_alnum_ascii c = (is_lower_ascii c \<or> is_upper_ascii c \<or> is_digit c)"

definition is_word :: "char \<Rightarrow> bool" where
  "is_word c = (is_alnum_ascii c \<or> c = CHR ''_''
     \<or> (of_char c :: nat) \<in> {170, 178, 179, 181, 185, 186, 188, 189, 190}
     \<or> (192 \<le> (of_char c :: nat) \<and> (of_char c :: nat) \<noteq> 215 \<and> (of_char c :: nat) \<noteq> 247))"

text \<open>
  \<open>str.lower\<close> and \<open>str.upper\<close>. Lower-casing maps A--Z and the upper-case letters
  192--222 (without the multiplication sign 215) 32 places up. Upper-casing maps a--z and
  224--254 (without the division sign 247) 32 places down and the sharp s (223) to
  \<open>SS\<close>; the upper-case forms of 181 and 255 lie outside the 8-bit range and the model
  leaves these two characters unchanged.
\<close>

definition lower_char :: "char \<Rightarrow> char" where
  "lower_char c = (let n = (of_char c :: nat) in
     if (65 \<le> n \<and> n \<le> 90) \<or> (192 \<le> n \<and> n \<le> 222 \<and> n \<noteq> 215)
     then char_of (n + 32) else c)"

definition upper_char :: "char \<Rightarrow> string" where
  "upper_char c = (let n = (of_char c :: nat) in
     if (97 \<le> n \<and> n \<le> 122) \<or> (224 \<le> n \<and> n \<le> 254 \<and> n \<noteq> 247)
     then [char_of (n - 32)]
     else if n = 223 then ''SS'' else [c])"

definition lower :: "string \<Rightarrow> string" where
  "lower s = map lower_char s"

definition upper :: "string \<Rightarrow> string" where
  "upper s = concat (map upper_char s)"

text \<open>\<open>s.strip()\<close>, \<open>s.lstrip('.')\<close>, \<open>sep.join(xs)\<close>, \<open>s.split(sep)\<close>, \<open>sub in s\<close>
  and \<open>s.replace(old, new)\<close>.\<close>

definition strip :: "string \<Rightarrow> string" where
  "strip s = rev (dropWhile is_space (rev (dropWhile is_space s)))"

definition lstrip_dots :: "string \<Rightarrow> string" where
  "lstrip_dots s = dropWhile (\<lambda>c. c = CHR ''.'') s"

fun join :: "string \<Rightarrow> string list \<Rightarrow> string" where
  "join sep [] = []"
| "join sep [x] = x"
| "join sep (x # y # ys) = x @ sep @ join sep (y # ys)"

fun is_prefix :: "string \<Rightarrow> string \<Rightarrow> bool" where
  "is_prefix [] s = True"
| "is_prefix (p # ps) [] = False"
| "is_prefix (p # ps) (c # cs) = (p = c \<and> is_prefix ps cs)"

fun contains :: "string \<Rightarrow> string \<Rightarrow> bool" where
  "contains sub [] = (sub = [])"
| "contains sub (c # cs) = (is_prefix sub (c # cs) \<or> contains sub cs)"

text \<open>\<open>split_on sep acc s\<close> splits at every occurrence of the non-empty separator,
  from the left; \<open>acc\<close> holds the current piece, reversed.\<close>

function split_on :: "string \<Rightarrow> string \<Rightarrow> string \<Rightarrow> string list" where
  "split_on sep acc [] = [rev acc]"
| "split_on sep acc (c # cs) =
     (if sep \<noteq> [] \<and> is_prefix sep (c # cs)
      then rev acc # split_on sep [] (drop (length sep) (c # cs))
      else split_on sep (c # acc) cs)"
  by pat_completeness auto
termination
  by (relation "measure (\<lambda>(sep, acc, s). length s)") auto

definition split :: "string \<Rightarrow> string \<Rightarrow> string list" where
  "split sep s = split_on sep [] s"

function replace :: "string \<Rightarrow> string \<Rightarrow> string \<Rightarrow> string" where
  "replace old new [] = (if old = [] then new else [])"
| "replace old new (c # cs) =
     (if old = [] then new @ c # replace old new cs
      else if is_prefix old (c # cs) then new @ replace old new (drop (length old) (c # cs))
      else c # replace old new cs)"
  by pat_completeness auto
termination
  by (relation "measure (\<lambda>(old, new, s). length s)") auto

text \<open>\<^verbatim>\<open>re.sub(r'\s+', ' ', s)\<close>: every maximal run of white space becomes one blank.\<close>

function collapse_ws :: "string \<Rightarrow> string" where
  "collapse_ws [] = []"
| "collapse_ws (c # cs) =
     (if is_space c then CHR '' '' # collapse_ws (dropWhile is_space cs)
      else c # collapse_ws cs)"
  by pat_completeness auto
termination
  by (relation "measure length") (auto simp: length_dropWhile_le less_Suc_eq_le)

section \<open>Regular expressions\<close>

text \<open>
  The scripts do all their matching through Python's \<open>re\<close> module. Its matcher is a
  backtracking one: alternatives are tried from left to right, quantifiers are greedy,
  and the first way to complete a match wins. \<open>matches r p\<close> lists, in that order of
  preference, the positions at which a match of \<open>r\<close> starting at position \<open>p\<close> can
  end. A position is the pair of the text before it (reversed) and the text after it,
  so that the anchors can look at both sides.
\<close>

datatype rx =
    Sym "char \<Rightarrow> bool"
  | Eps
  | Seq rx rx
  | Alt rx rx
  | Star rx
  | Rep rx nat nat
  | Bol
  | Eol
  | Wordb

type_synonym pos = "string \<times> string"

fun rx_size :: "rx \<Rightarrow> nat" where
  "rx_size (Sym P) = 1"
| "rx_size Eps = 1"
| "rx_size (Seq r s) = rx_size r + rx_size s + 1"
| "rx_size (Alt r s) = rx_size r + rx_size s + 1"
| "rx_size (Star r) = rx_size r + 1"
| "rx_size (Rep r m n) = rx_size r + n + 1"
| "rx_size Bol = 1"
| "rx_size Eol = 1"
| "rx_size Wordb = 1"

definition word_at :: "string \<Rightarrow> bool" where
  "word_at s = (case s of [] \<Rightarrow> False | c # _ \<Rightarrow> is_word c)"

text \<open>
  \<open>Star r\<close> is \<^verbatim>\<open>r*\<close>, \<open>Rep r m n\<close> is \<^verbatim>\<open>r{m,n}\<close>, \<open>Bol\<close> is \<^verbatim>\<open>^\<close>, \<open>Eol\<close> is
  \<^verbatim>\<open>$\<close> (the end of the text, or just before a final newline) and \<open>Wordb\<close> is
  \<^verbatim>\<open>\b\<close>. An iteration of a star that consumes nothing is not repeated.
\<close>

function matches :: "rx \<Rightarrow> pos \<Rightarrow> pos list" where
  "matches (Sym P) (b, a) =
     (case a of [] \<Rightarrow> [] | c # cs \<Rightarrow> if P c then [(c # b, cs)] else [])"
| "matches Eps p = [p]"
| "matches (Seq r s) p = concat (map (matches s) (matches r p))"
| "matches (Alt r s) p = matches r p @ matches s p"
| "matches (Star r) p =
     concat (map (matches (Star r))
       (filter (\<lambda>q. length (snd q) < length (snd p)) (matches r p))) @ [p]"
| "matches (Rep r m n) p =
     (if n = 0 then [p]
      else concat (map (matches (Rep r (m - 1) (n - 1))) (matches r p))
           @ (if m = 0 then [p] else []))"
| "matches Bol (b, a) = (if b = [] then [(b, a)] else [])"
| "matches Eol (b, a) = (if a = [] \<or> a = [CHR 0x0A] then [(b, a)] else [])"
| "matches Wordb (b, a) = (if word_at b \<noteq> word_at a then [(b, a)] else [])"
  by pat_completeness auto
termination
  by (relation "measures [\<lambda>(r, p). rx_size r, \<lambda>(r, p). length (snd p)]") auto

declare matches.simps(5,6) [simp del]

text \<open>
  A pattern is kept as three parts: what stands before its capturing group, the group,
  and what stands after it. A pattern without a group is \<open>(Eps, r, Eps)\<close>, whose group
  is the whole match, which is what \<open>findall\<close> returns for such a pattern.
  \<open>match_at\<close> is the preferred match at one position: where the match starts, where
  the group starts, where the group ends, where the match ends.
\<close>

type_synonym pattern = "rx \<times> rx \<times> rx"

definition whole :: "rx \<Rightarrow> pattern" where
  "whole r = (Eps, r, Eps)"

definition match_at :: "pattern \<Rightarrow> pos \<Rightarrow> (pos \<times> pos \<times> pos) option" where
  "match_at pt p = (case pt of (pre, grp, suf) \<Rightarrow>
     (case concat (map (\<lambda>p1. concat (map (\<lambda>p2. map (\<lambda>p3. (p1, p2, p3)) (matches suf p2))
                                          (matches grp p1)))
                       (matches pre p)) of
        [] \<Rightarrow> None
      | m # _ \<Rightarrow> Some m))"

definition between :: "pos \<Rightarrow> pos \<Rightarrow> string" where
  "between p q = take (length (snd p) - length (snd q)) (snd p)"

text \<open>\<open>re.match\<close>: the group and the whole match of a match at the start of the text.\<close>

definition re_match :: "pattern \<Rightarrow> string \<Rightarrow> (string \<times> string) option" where
  "re_match pt s = (case match_at pt ([], s) of
      None \<Rightarrow> None
    | Some (p1, p2, p3) \<Rightarrow> Some (between p1 p2, between ([], s) p3))"

text \<open>\<open>re.search\<close>: the leftmost position with a match; the result is the group and
  the whole match (\<open>group(1)\<close> and \<open>group(0)\<close>).\<close>

fun search_from :: "pattern \<Rightarrow> string \<Rightarrow> string \<Rightarrow> (string \<times> string) option" where
  "search_from pt b [] =
     (case match_at pt (b, []) of
        None \<Rightarrow> None
      | Some (p1, p2, p3) \<Rightarrow> Some (between p1 p2, between (b, []) p3))"
| "search_from pt b (c # cs) =
     (case match_at pt (b, c # cs) of
        None \<Rightarrow> search_from pt (c # b) cs
      | Some (p1, p2, p3) \<Rightarrow> Some (between p1 p2, between (b, c # cs) p3))"

definition re_search :: "pattern \<Rightarrow> string \<Rightarrow> (string \<times> string) option" where
  "re_search pt s = search_from pt [] s"

definition found :: "pattern \<Rightarrow> string \<Rightarrow> bool" where
  "found pt s = (re_search pt s \<noteq> None)"

text \<open>
  \<open>re.findall\<close>: the groups of the successive non-overlapping matches, scanning from
  the left. After a match the scan resumes where the match ended. No pattern of these
  scripts matches the empty text; after an empty match the model records it and moves
  one character on.
\<close>

function findall_from :: "pattern \<Rightarrow> pos \<Rightarrow> string list" where
  "findall_from pt (b, a) =
     (case match_at pt (b, a) of
        None \<Rightarrow> (case a of [] \<Rightarrow> [] | c # cs \<Rightarrow> findall_from pt (c # b, cs))
      | Some (p1, p2, p3) \<Rightarrow>
          if length (snd p3) < length a then between p1 p2 # findall_from pt p3
          else (case a of [] \<Rightarrow> [between p1 p2]
                | c # cs \<Rightarrow> between p1 p2 # findall_from pt (c # b, cs)))"
  by pat_completeness auto
termination
  by (relation "measure (\<lambda>(pt, p). length (snd p))") auto

declare findall_from.simps [simp del]

definition findall :: "pattern \<Rightarrow> string \<Rightarrow> string list" where
  "findall pt s = findall_from pt ([], s)"

text \<open>Building blocks. With the flag \<open>re.I\<close> a letter of the pattern matches both of
  its cases; \<open>ci\<close> and \<open>lit_ci\<close> are used for the patterns compiled with that flag.\<close>

definition chr :: "char \<Rightarrow> rx" where
  "chr c = Sym (\<lambda>x. x = c)"

definition ci :: "char \<Rightarrow> rx" where
  "ci c = Sym (\<lambda>x. lower_char x = lower_char c)"

definition one_of :: "string \<Rightarrow> rx" where
  "one_of cs = Sym (\<lambda>x. x \<in> set cs)"

definition none_of :: "string \<Rightarrow> rx" where
  "none_of cs = Sym (\<lambda>x. x \<notin> set cs)"

definition dot :: rx where
  "dot = Sym (\<lambda>x. x \<noteq> CHR 0x0A)"

definition never :: rx where
  "never = Sym (\<lambda>x. False)"

definition opt :: "rx \<Rightarrow> rx" where
  "opt r = Rep r 0 1"

definition plus :: "rx \<Rightarrow> rx" where
  "plus r = Seq r (Star r)"

fun seqs :: "rx list \<Rightarrow> rx" where
  "seqs [] = Eps"
| "seqs [r] = r"
| "seqs (r # rs) = Seq r (seqs rs)"

fun alts :: "rx list \<Rightarrow> rx" where
  "alts [] = never"
| "alts [r] = r"
| "alts (r # rs) = Alt r (alts rs)"

definition lit :: "string \<Rightarrow> rx" where
  "lit s = seqs (map chr s)"

definition lit_ci :: "string \<Rightarrow> rx" where
  "lit_ci s = seqs (map ci s)"

section \<open>data\_fair\_assessment.py: constants and pure helpers\<close>

definition MAX_FILES_TO_DISPLAY :: nat where
  "MAX_FILES_TO_DISPLAY = 10"

definition MAX_FORMATS_TO_DISPLAY :: nat where
  "MAX_FORMATS_TO_DISPLAY = 10"

definition FILE_EXTENSIONS :: "string list" where
  "FILE_EXTENSIONS = [''csv'', ''tsv'', ''txt'', ''json'', ''xml'', ''fasta'', ''fastq'',
     ''bam'', ''vcf'', ''hdf5'', ''xlsx'', ''xls'', ''pdf'', ''zip'', ''tar.gz'', ''tgz'']"

text \<open>
  \<^verbatim>\<open>ext_pattern = '|'.join(FILE_EXTENSIONS)\<close> is spliced into the patterns unescaped, so
  the dot of \<open>tar.gz\<close> is the regular-expression dot. All patterns built from it are
  used with \<open>re.I\<close>.
\<close>

definition ext_rx :: "string \<Rightarrow> rx" where
  "ext_rx e = seqs (map (\<lambda>c. if c = CHR ''.'' then dot else ci c) e)"

definition ext_pattern :: rx where
  "ext_pattern = alts (map ext_rx FILE_EXTENSIONS)"

text \<open>The table \<open>REPOSITORY_PATTERNS\<close>, in the order of the dictionary literal, which is
  the order in which \<open>.items()\<close> yields it.\<close>

definition REPOSITORY_PATTERNS :: "(string \<times> rx) list" where
  "REPOSITORY_PATTERNS =
    [(''Mendeley Data'', Alt (lit_ci ''mendeley.com'') (lit_ci ''data.mendeley'')),
     (''Zenodo'', lit_ci ''zenodo.org''),
     (''Figshare'', lit_ci ''figshare.com''),
     (''Dryad'', lit_ci ''datadryad.org''),
     (''GitHub'', lit_ci ''github.com''),
     (''ENA'', Alt (lit_ci ''ebi.ac.uk/ena'') (lit_ci ''www.ebi.ac.uk/ena'')),
     (''GenBank'', lit_ci ''ncbi.nlm.nih.gov/genbank''),
     (''GEO'', lit_ci ''ncbi.nlm.nih.gov/geo''),
     (''ArrayExpress'', lit_ci ''ebi.ac.uk/arrayexpress''),
     (''PRIDE'', lit_ci ''ebi.ac.uk/pride''),
     (''OSF'', lit_ci ''osf.io'')]"

definition sep_opt :: rx where
  "sep_opt = opt (one_of ''- '')"

definition LICENSE_PATTERNS :: "rx list" where
  "LICENSE_PATTERNS =
    [seqs [lit_ci ''CC'', sep_opt, lit_ci ''BY'', sep_opt, opt (lit_ci ''NC''), sep_opt,
           opt (lit_ci ''SA''), sep_opt,
           opt (seqs [Sym is_digit, chr CHR ''.'', Sym is_digit])],
     lit_ci ''Creative Commons'',
     lit_ci ''CC0'',
     lit_ci ''MIT License'',
     lit_ci ''GPL'',
     lit_ci ''Apache License'',
     lit_ci ''Public Domain'',
     lit_ci ''Open Database License'']"

text \<open>\<open>clean_text\<close> of data\_fair\_assessment.py.\<close>

definition clean_text :: "string \<Rightarrow> string" where
  "clean_text text = (if text = [] then [] else strip (collapse_ws text))"

text \<open>\<^verbatim>\<open>re.match(r'^(license|readme|citation)', filename, re.I)\<close>\<close>

definition is_metadata_file :: "string \<Rightarrow> bool" where
  "is_metadata_file filename =
     (re_match (Bol, alts [lit_ci ''license'', lit_ci ''readme'', lit_ci ''citation''], Eps)
        filename \<noteq> None)"

text \<open>
  \<open>identify_repository\<close>: the loop over the table returns at the first pattern that
  \<open>re.search\<close> finds in the URL.
\<close>

fun first_label :: "(string \<times> rx) list \<Rightarrow> string \<Rightarrow> string" where
  "first_label [] url = []"
| "first_label ((repo_name, pat) # rest) url =
     (if found (whole pat) url then repo_name else first_label rest url)"

definition identify_repository :: "string \<Rightarrow> string" where
  "identify_repository url = first_label REPOSITORY_PATTERNS url"

text \<open>\<open>extract_license\<close>: the first pattern of the list that is found; its match,
  cleaned.\<close>

fun first_license :: "rx list \<Rightarrow> string \<Rightarrow> string" where
  "first_license [] page_text = []"
| "first_license (pat # rest) page_text =
     (case re_search (whole pat) page_text of
        Some (g, m) \<Rightarrow> clean_text m
      | None \<Rightarrow> first_license rest page_text)"

definition extract_license :: "string \<Rightarrow> string" where
  "extract_license page_text = first_license LICENSE_PATTERNS page_text"

text \<open>
  The DOI pattern \<^verbatim>\<open>10\.\d{4,9}/[-._;()/:A-Z0-9]+\<close> with \<open>re.I\<close>, and
  \<open>extract_dataset_doi\<close>: the matches that differ from the paper's DOI after
  lower-casing both; the first of them, or the empty string.
\<close>

definition doi_rx :: rx where
  "doi_rx = seqs [lit ''10.'', Rep (Sym is_digit) 4 9, chr CHR ''/'',
     plus (Sym (\<lambda>c. c \<in> set ''-._;()/:'' \<or> is_alnum_ascii c))]"

definition extract_dataset_doi :: "string \<Rightarrow> string \<Rightarrow> string" where
  "extract_dataset_doi page_text paper_doi =
     (let dois = findall (whole doi_rx) page_text;
          dataset_dois = filter (\<lambda>d. lower d \<noteq> lower paper_doi) dois
      in case dataset_dois of [] \<Rightarrow> [] | d # _ \<Rightarrow> d)"

section \<open>Parsed pages and JSON replies\<close>

text \<open>
  What BeautifulSoup builds from a page: strings and tags with a name, attributes (a
  dictionary, kept here as an association list) and children. Only the strings that
  \<open>get_text\<close> yields are modelled (no comments, scripts or style sheets). A parsed
  page is the list of the top-level nodes.
\<close>

datatype node = NavigableString string | Tag string "(string \<times> string) list" "node list"

type_synonym soup = "node list"

fun all_strings :: "node \<Rightarrow> string list" where
  "all_strings (NavigableString s) = [s]"
| "all_strings (Tag name attrs kids) = concat (map all_strings kids)"

text \<open>\<open>get_text()\<close> and \<open>get_text(' ', strip=True)\<close>.\<close>

definition get_text :: "node list \<Rightarrow> string" where
  "get_text ns = concat (concat (map all_strings ns))"

definition get_text_strip :: "node list \<Rightarrow> string" where
  "get_text_strip ns =
     join '' '' (filter (\<lambda>s. s \<noteq> []) (map strip (concat (map all_strings ns))))"

text \<open>All tags below a list of nodes, in document order.\<close>

fun descendants :: "node \<Rightarrow> node list" where
  "descendants (NavigableString s) = []"
| "descendants (Tag name attrs kids) = Tag name attrs kids # concat (map descendants kids)"

definition tag_name :: "node \<Rightarrow> string option" where
  "tag_name n = (case n of NavigableString s \<Rightarrow> None | Tag name attrs kids \<Rightarrow> Some name)"

definition tag_attrs :: "node \<Rightarrow> (string \<times> string) list" where
  "tag_attrs n = (case n of NavigableString s \<Rightarrow> [] | Tag name attrs kids \<Rightarrow> attrs)"

definition find_all_named :: "string \<Rightarrow> soup \<Rightarrow> node list" where
  "find_all_named name sp =
     filter (\<lambda>n. tag_name n = Some name) (concat (map descendants sp))"

text \<open>Decoded JSON. Numbers are kept as integers: the scripts only test them for
  truth. An object is an association list with distinct keys.\<close>

datatype json = JNull | JBool bool | JNum int | JStr string | JArr "json list"
  | JObj "(string \<times> json) list"

fun truthy :: "json \<Rightarrow> bool" where
  "truthy JNull = False"
| "truthy (JBool b) = b"
| "truthy (JNum n) = (n \<noteq> 0)"
| "truthy (JStr s) = (s \<noteq> [])"
| "truthy (JArr xs) = (xs \<noteq> [])"
| "truthy (JObj kv) = (kv \<noteq> [])"

section \<open>Exceptions and the outside world\<close>

text \<open>
  The exceptions that the \<open>except\<close> clauses of the scripts tell apart:
  \<open>requests.exceptions.Timeout\<close>, any other
  \<open>requests.exceptions.RequestException\<close> (connection errors, and the
  \<open>HTTPError\<close> of \<open>raise_for_status\<close>), and any other \<open>Exception\<close>. An exception
  carries its message, \<open>str(e)\<close>. \<open>KeyboardInterrupt\<close> and \<open>SystemExit\<close>, which are
  not subclasses of \<open>Exception\<close> and which no library call raises, are not modelled.
\<close>

datatype exn_class = Timeout | RequestException | OtherException

datatype exn = Exn exn_class string

definition is_subclass :: "exn_class \<Rightarrow> exn_class \<Rightarrow> bool" where
  "is_subclass c d =
     (case d of
        Timeout \<Rightarrow> c = Timeout
      | RequestException \<Rightarrow> c = Timeout \<or> c = RequestException
      | OtherException \<Rightarrow> True)"

text \<open>
  A reply of \<open>requests.get\<close>: the status code, the text (\<open>response.text\<close>) and, when the body is JSON, what
  \<open>.json()\<close> decodes (\<open>None\<close> when decoding raises). \<open>http_error\<close> is the message of the
  \<open>HTTPError\<close> that \<open>raise_for_status\<close> raises, which the library builds for a 4xx or
  5xx status; it is \<open>None\<close> for any other status.
\<close>

record response =
  status_code :: nat
  resp_text :: string
  json_body :: "json option"
  http_error :: "string option"

definition raise_for_status :: "response \<Rightarrow> exn + unit" where
  "raise_for_status r =
     (case http_error r of Some msg \<Rightarrow> Inl (Exn RequestException msg) | None \<Rightarrow> Inr ())"

text \<open>
  The world as one assessment sees it: the reply to each request (or the exception
  it raises), the page that the HTML parser builds from a text (or the exception it
  raises), and \<open>fault\<close>, which says for each numbered call of the body of
  \<open>assess_dataset_url\<close> whether that call raises and what.
\<close>

record world =
  requests_get :: "string \<Rightarrow> exn + response"
  BeautifulSoup :: "string \<Rightarrow> exn + soup"
  fault :: "nat \<Rightarrow> exn option"

section \<open>data\_fair\_assessment.py: extraction\<close>

definition quote :: rx where
  "quote = one_of [CHR 0x22, CHR 0x27]"

definition not_quote :: rx where
  "not_quote = none_of [CHR 0x22, CHR 0x27]"

text \<open>\<open>extract_mendeley_files\<close>. The dataset identifier is found with
  \<^verbatim>\<open>re.search(r'/datasets/([a-z0-9]+)', url)\<close>. Everything after that runs inside
  \<open>try ... except Exception\<close>, which turns any exception into the empty list:
  \<open>mendeley_names\<close> is \<open>None\<close> where the list comprehension raises (an entry that is
  not an object, or a true \<open>filename\<close> that is not a string).\<close>

definition mendeley_id_pattern :: pattern where
  "mendeley_id_pattern =
     (lit ''/datasets/'', plus (Sym (\<lambda>c. is_lower_ascii c \<or> is_digit c)), Eps)"

fun mendeley_names :: "json list \<Rightarrow> string list option" where
  "mendeley_names [] = Some []"
| "mendeley_names (f # fs) =
     (case f of
        JObj kv \<Rightarrow>
          (case map_of kv ''filename'' of
             None \<Rightarrow> mendeley_names fs
           | Some v \<Rightarrow>
               if truthy v
               then (case v of
                       JStr s \<Rightarrow> if is_metadata_file s then mendeley_names fs
                                 else map_option (\<lambda>ns. s # ns) (mendeley_names fs)
                     | _ \<Rightarrow> None)
               else mendeley_names fs)
      | _ \<Rightarrow> None)"

definition extract_mendeley_files :: "world \<Rightarrow> string \<Rightarrow> string list" where
  "extract_mendeley_files w link =
     (case re_search mendeley_id_pattern link of
        None \<Rightarrow> []
      | Some (dataset_id, m) \<Rightarrow>
          (case requests_get w (''https://data.mendeley.com/api/datasets/'' @ dataset_id @ ''/files'') of
             Inl e \<Rightarrow> []
           | Inr r \<Rightarrow>
               if status_code r = 200
               then (case json_body r of
                       Some (JArr files_data) \<Rightarrow>
                         (case mendeley_names files_data of Some ns \<Rightarrow> ns | None \<Rightarrow> [])
                     | _ \<Rightarrow> [])
               else []))"

text \<open>\<open>extract_filenames_from_html\<close>. Both patterns have one group, so \<open>findall\<close>
  yields the groups. In the second pattern the class is written
  \<^verbatim>\<open>[^"\'>\\s]\<close> in a raw string: it excludes the two quotes, \<open>>\<close>, the backslash and
  the letter s (in both cases, under \<open>re.I\<close>), not white space. The result is a set,
  kept here as the list of its members.\<close>

definition filename_patterns :: "pattern list" where
  "filename_patterns =
    [(Eps,
      seqs [plus (Sym (\<lambda>c. is_alnum_ascii c \<or> c = CHR ''_'' \<or> c = CHR ''-'')),
            chr CHR ''.'', ext_pattern],
      Eps),
     (seqs [lit_ci ''filename'', opt quote, Star (Sym is_space), one_of '':='',
            Star (Sym is_space), opt quote],
      seqs [plus (none_of [CHR 0x22, CHR 0x27, CHR ''>'', CHR 0x5C, CHR ''s'', CHR ''S'']),
            chr CHR ''.'', ext_pattern],
      opt quote)]"

definition extract_filenames_from_html :: "string \<Rightarrow> string list" where
  "extract_filenames_from_html html_content =
     filter (\<lambda>filename. \<not> is_metadata_file filename)
       (concat (map (\<lambda>pt. findall pt html_content) filename_patterns))"

text \<open>\<open>extract_formats_from_html\<close>. None of the four patterns has a capturing group,
  so \<open>findall\<close> yields the whole matches, and each goes into the set as
  \<open>match.upper().lstrip('.')\<close>. Then the \<open>content\<close> of every \<open>meta\<close> tag is searched
  for each extension.\<close>

definition format_patterns :: "rx list" where
  "format_patterns =
    [seqs [alts [lit_ci ''file'', lit_ci ''download'', lit_ci ''dataset'', lit_ci ''data''],
           plus (Sym is_space), Rep (none_of ''<>'') 0 50, chr CHR ''.'', ext_pattern, Wordb],
     seqs [chr CHR ''.'', ext_pattern, plus (Sym is_space),
           alts [lit_ci ''file'', lit_ci ''download'', lit_ci ''format'']],
     seqs [lit_ci ''href='', quote, Star not_quote, chr CHR ''.'', ext_pattern, quote],
     seqs [lit_ci ''data-'', Star (none_of ''=''), chr CHR ''='', quote, Star not_quote,
           chr CHR ''.'', ext_pattern, quote]]"

definition attr_get :: "node \<Rightarrow> string \<Rightarrow> string \<Rightarrow> string" where
  "attr_get n key dflt = (case map_of (tag_attrs n) key of Some v \<Rightarrow> v | None \<Rightarrow> dflt)"

definition meta_formats :: "soup \<Rightarrow> string list" where
  "meta_formats sp =
     concat (map (\<lambda>meta.
        let content = attr_get meta ''content'' []
        in if content \<noteq> []
           then map upper (filter (\<lambda>ext. contains (CHR ''.'' # ext) (lower content)) FILE_EXTENSIONS)
           else [])
       (find_all_named ''meta'' sp))"

definition extract_formats_from_html :: "string \<Rightarrow> soup \<Rightarrow> string list" where
  "extract_formats_from_html html_content sp =
     concat (map (\<lambda>pat. map (\<lambda>m. lstrip_dots (upper m)) (findall (whole pat) html_content))
               format_patterns)
     @ meta_formats sp"

text \<open>\<open>query_datacite_api\<close>: the whole body is inside \<open>try ... except Exception\<close>, and
  every failure gives the empty string. \<open>obj_get j key dflt\<close> is \<open>j.get(key, dflt)\<close>,
  which raises when \<open>j\<close> is not a dictionary.\<close>

definition obj_get :: "json \<Rightarrow> string \<Rightarrow> json \<Rightarrow> json option" where
  "obj_get j key dflt =
     (case j of
        JObj kv \<Rightarrow> (case map_of kv key of Some v \<Rightarrow> Some v | None \<Rightarrow> Some dflt)
      | _ \<Rightarrow> None)"

definition content_url_pattern :: pattern where
  "content_url_pattern =
     (chr CHR ''/'', seqs [plus (none_of ''/''), chr CHR ''.'', ext_pattern], Eol)"

fun first_content_file :: "json list \<Rightarrow> string" where
  "first_content_file [] = []"
| "first_content_file (file_url # rest) =
     (case file_url of
        JStr s \<Rightarrow> (case re_search content_url_pattern s of
                     Some (g, m) \<Rightarrow> g
                   | None \<Rightarrow> first_content_file rest)
      | _ \<Rightarrow> [])"

definition query_datacite_api :: "world \<Rightarrow> string \<Rightarrow> string" where
  "query_datacite_api w doi =
     (case requests_get w (''https://api.datacite.org/dois/'' @ doi) of
        Inl e \<Rightarrow> []
      | Inr r \<Rightarrow>
          if status_code r = 200
          then (case json_body r of
                  None \<Rightarrow> []
                | Some j \<Rightarrow>
                    (case obj_get j ''data'' (JObj []) of
                       None \<Rightarrow> []
                     | Some d \<Rightarrow>
                         (case obj_get d ''attributes'' (JObj []) of
                            None \<Rightarrow> []
                          | Some data_attr \<Rightarrow>
                              (case obj_get data_attr ''contentUrl'' (JArr []) of
                                 Some (JArr content_urls) \<Rightarrow> first_content_file content_urls
                               | _ \<Rightarrow> []))))
          else [])"

text \<open>The formats read off the names in \<open>result['file_name']\<close> (lines 276--280):
  \<^verbatim>\<open>re.search(r'\.([a-z0-9]+)$', filename, re.I)\<close> on every piece of
  \<open>split(', ')\<close>.\<close>

definition extension_pattern :: pattern where
  "extension_pattern = (chr CHR ''.'', plus (Sym is_alnum_ascii), Eol)"

definition formats_of_file_name :: "string \<Rightarrow> string list" where
  "formats_of_file_name names =
     concat (map (\<lambda>filename.
        case re_search extension_pattern filename of
          Some (g, m) \<Rightarrow> [upper g]
        | None \<Rightarrow> [])
       (split '', '' names))"

section \<open>data\_fair\_assessment.py: assess\_dataset\_url\<close>

text \<open>The result dictionary, with its eight keys.\<close>

record assessment =
  url :: string
  dataset_doi :: string
  file_name :: string
  file_formats :: string
  license :: string
  repository :: string
  accessibility :: string
  fair_score :: int

text \<open>
  The body of the \<open>try\<close> block mutates the dictionary as it goes, so an exception
  leaves it as it was when the exception was raised. An outcome is the exception
  raised, if any, with the dictionary at that moment. The calls of the body after the
  page is parsed are numbered 4 to 14, in the order of the source; \<open>attempt\<close> lets the
  world make a call raise instead of returning.
\<close>

type_synonym outcome = "exn option \<times> assessment"

definition attempt :: "world \<Rightarrow> nat \<Rightarrow> assessment \<Rightarrow> outcome \<Rightarrow> outcome" where
  "attempt w site r k = (case fault w site of Some e \<Rightarrow> (Some e, r) | None \<Rightarrow> k)"

text \<open>Lines 286--293: the license, then \<open>accessibility = 'Accessible'\<close>.\<close>

definition step_license :: "world \<Rightarrow> string \<Rightarrow> assessment \<Rightarrow> outcome" where
  "step_license w page_text r =
     attempt w 14 r
       (let license_info = extract_license page_text;
            r1 = (if license_info \<noteq> []
                  then r\<lparr>license := license_info, fair_score := fair_score r + 1\<rparr>
                  else r)
        in (None, r1\<lparr>accessibility := ''Accessible''\<rparr>))"

text \<open>Lines 272--284: the formats of the page, those of the file names, and the
  field \<open>file_formats\<close>.\<close>

definition put_formats :: "world \<Rightarrow> string \<Rightarrow> string list \<Rightarrow> assessment \<Rightarrow> outcome" where
  "put_formats w page_text formats r =
     (if formats \<noteq> []
      then attempt w 13 r
             (step_license w page_text
                (r\<lparr>file_formats :=
                     join '', '' (take MAX_FORMATS_TO_DISPLAY (sort (remdups formats))),
                   fair_score := fair_score r + 1\<rparr>))
      else step_license w page_text r)"

definition step_formats :: "world \<Rightarrow> string \<Rightarrow> soup \<Rightarrow> string \<Rightarrow> assessment \<Rightarrow> outcome" where
  "step_formats w html_content sp page_text r =
     attempt w 11 r
       (let formats = extract_formats_from_html html_content sp
        in if file_name r \<noteq> []
           then attempt w 12 r
                  (put_formats w page_text (formats @ formats_of_file_name (file_name r)) r)
           else put_formats w page_text formats r)"

text \<open>Lines 260--270: the dataset DOI and, when no file name was found, the DataCite
  lookup.\<close>

definition step_doi ::
  "world \<Rightarrow> string \<Rightarrow> soup \<Rightarrow> string \<Rightarrow> string \<Rightarrow> assessment \<Rightarrow> outcome" where
  "step_doi w html_content sp page_text paper_doi r =
     attempt w 9 r
       (let d = extract_dataset_doi page_text paper_doi
        in if d \<noteq> []
           then (let r1 = r\<lparr>dataset_doi := d, fair_score := fair_score r + 1\<rparr>
                 in if file_name r1 = []
                    then attempt w 10 r1
                           (let datacite_filename = query_datacite_api w d
                            in step_formats w html_content sp page_text
                                 (if datacite_filename \<noteq> []
                                  then r1\<lparr>file_name := datacite_filename\<rparr> else r1))
                    else step_formats w html_content sp page_text r1)
           else step_formats w html_content sp page_text r)"

text \<open>Lines 244--258: the file names, from the Mendeley API for a Mendeley Data link,
  from the HTML otherwise or when the API gave none, and the field \<open>file_name\<close>.\<close>

definition put_file_name ::
  "world \<Rightarrow> string \<Rightarrow> soup \<Rightarrow> string \<Rightarrow> string \<Rightarrow> string list \<Rightarrow> assessment \<Rightarrow> outcome" where
  "put_file_name w html_content sp page_text paper_doi filenames r =
     (if filenames \<noteq> []
      then attempt w 8 r
             (step_doi w html_content sp page_text paper_doi
                (r\<lparr>file_name :=
                     join '', '' (take MAX_FILES_TO_DISPLAY (sort (remdups filenames)))\<rparr>))
      else step_doi w html_content sp page_text paper_doi r)"

definition html_file_names ::
  "world \<Rightarrow> string \<Rightarrow> soup \<Rightarrow> string \<Rightarrow> string \<Rightarrow> string list \<Rightarrow> assessment \<Rightarrow> outcome" where
  "html_file_names w html_content sp page_text paper_doi filenames r =
     (if filenames = []
      then attempt w 7 r
             (put_file_name w html_content sp page_text paper_doi
                (extract_filenames_from_html html_content) r)
      else put_file_name w html_content sp page_text paper_doi filenames r)"

definition step_files ::
  "world \<Rightarrow> string \<Rightarrow> string \<Rightarrow> soup \<Rightarrow> string \<Rightarrow> string \<Rightarrow> assessment \<Rightarrow> outcome" where
  "step_files w link html_content sp page_text paper_doi r =
     (if repository r = ''Mendeley Data''
      then attempt w 6 r
             (html_file_names w html_content sp page_text paper_doi
                (extract_mendeley_files w link) r)
      else html_file_names w html_content sp page_text paper_doi [] r)"

text \<open>Lines 231--242: the request, the parse, the page text and the repository.\<close>

definition try_body :: "world \<Rightarrow> string \<Rightarrow> string \<Rightarrow> assessment \<Rightarrow> outcome" where
  "try_body w link paper_doi r =
     (case requests_get w link of
        Inl e \<Rightarrow> (Some e, r)
      | Inr resp \<Rightarrow>
          (case raise_for_status resp of
             Inl e \<Rightarrow> (Some e, r)
           | Inr u \<Rightarrow>
               (case BeautifulSoup w (resp_text resp) of
                  Inl e \<Rightarrow> (Some e, r)
                | Inr sp \<Rightarrow>
                    attempt w 4 r
                      (let page_text = get_text_strip sp;
                           html_content = resp_text resp
                       in attempt w 5 r
                            (let repo = identify_repository link;
                                 r1 = r\<lparr>repository := repo\<rparr>;
                                 r2 = (if repo \<noteq> []
                                       then r1\<lparr>fair_score := fair_score r1 + 1\<rparr> else r1)
                             in step_files w link html_content sp page_text paper_doi r2)))))"

text \<open>
  The \<open>except\<close> clauses, tried in the order of the source. An exception that none of
  them catches would leave the function: that is the result \<open>Inl\<close>.
\<close>

definition initial_result :: "string \<Rightarrow> assessment" where
  "initial_result link =
     \<lparr> url = link, dataset_doi = [], file_name = [], file_formats = [], license = [],
       repository = [], accessibility = ''Unknown'', fair_score = 0 \<rparr>"

definition assess_dataset_url :: "world \<Rightarrow> string \<Rightarrow> string \<Rightarrow> exn + assessment" where
  "assess_dataset_url w link paper_doi =
     (case try_body w link paper_doi (initial_result link) of
        (None, r) \<Rightarrow> Inr r
      | (Some (Exn c msg), r) \<Rightarrow>
          if is_subclass c Timeout
          then Inr (r\<lparr>accessibility := ''Error: Request timeout''\<rparr>)
          else if is_subclass c RequestException
          then Inr (r\<lparr>accessibility := ''Error: '' @ take 100 msg\<rparr>)
          else if is_subclass c OtherException
          then Inr (r\<lparr>accessibility := ''Parse Error: '' @ take 100 msg\<rparr>)
          else Inl (Exn c msg))"

section \<open>Metadata reconciliation (fair\_champion.py, process\_publication\_list)\<close>

text \<open>
  Each of the three metadata sources (\<open>get_epmc_metadata\<close>, \<open>get_crossref_metadata\<close>,
  \<open>get_meta_tags\<close>) returns strings for title, authors and journal; every one of them
  returns empty strings when its request or its parsing raises. The responses are the
  input of the model. Python's \<open>a or b\<close> on strings is \<open>a\<close> when \<open>a\<close> is non-empty and
  \<open>b\<close> otherwise.
\<close>

record source_fields =
  sf_title :: string
  sf_authors :: string
  sf_journal :: string

definition py_or :: "string \<Rightarrow> string \<Rightarrow> string" where
  "py_or a b = (if a \<noteq> [] then a else b)"

text \<open>
  Lines 201--203 of fair\_champion.py:
  \<^verbatim>\<open>title = epmc_title or cr_title or meta_title\<close> and the same for authors and journal.
\<close>

definition reconcile :: "source_fields \<Rightarrow> source_fields \<Rightarrow> source_fields \<Rightarrow> source_fields" where
  "reconcile epmc cr meta =
     \<lparr> sf_title = py_or (py_or (sf_title epmc) (sf_title cr)) (sf_title meta),
       sf_authors = py_or (py_or (sf_authors epmc) (sf_authors cr)) (sf_authors meta),
       sf_journal = py_or (py_or (sf_journal epmc) (sf_journal cr)) (sf_journal meta) \<rparr>"

text \<open>
  The merge policy in the words of the specification: the value of the first source, in
  the priority order given, that returned a non-empty string; empty when none did.
\<close>

definition first_nonempty :: "string list \<Rightarrow> string" where
  "first_nonempty xs = (case filter (\<lambda>s. s \<noteq> []) xs of [] \<Rightarrow> [] | x # _ \<Rightarrow> x)"

section \<open>fair\_champion.py: the data-availability statement\<close>

text \<open>
  \<open>clean_text\<close> of fair\_champion.py: \<open>html.unescape\<close>, NFC normalisation, every
  control character (0--31 and 127--159) replaced by a blank, runs of white space
  collapsed, and the result stripped. NFC leaves every string of 8-bit characters as it
  is. \<open>html.unescape\<close> is a library function with a table of entities of its own; it is
  the parameter \<open>unescape\<close> of the model.
\<close>

definition is_control :: "char \<Rightarrow> bool" where
  "is_control c = ((of_char c :: nat) \<le> 31 \<or> (127 \<le> (of_char c :: nat) \<and> (of_char c :: nat) \<le> 159))"

definition clean_text_fc :: "(string \<Rightarrow> string) \<Rightarrow> string \<Rightarrow> string" where
  "clean_text_fc unescape s =
     (if s = [] then []
      else strip (collapse_ws (map (\<lambda>c. if is_control c then CHR '' '' else c) (unescape s))))"

text \<open>
  The pattern \<^verbatim>\<open>^h[1-6]$\<close> for the name of a heading, used with \<open>find_all\<close> (which
  searches the name) and with \<open>re.match\<close> on the name of a sibling; and the pattern for
  the text of a heading, used with \<open>re.I\<close>:
  \<^verbatim>\<open>data (availability|accessibility)|availability of data|data sharing statement\<close>.
\<close>

definition heading_name_rx :: rx where
  "heading_name_rx = seqs [Bol, chr CHR ''h'', one_of ''123456'', Eol]"

definition is_heading :: "node \<Rightarrow> bool" where
  "is_heading n = (case n of
      NavigableString s \<Rightarrow> False
    | Tag name attrs kids \<Rightarrow> name \<noteq> [] \<and> re_match (whole heading_name_rx) name \<noteq> None)"

definition das_heading_rx :: rx where
  "das_heading_rx =
     alts [seqs [lit_ci ''data '', Alt (lit_ci ''availability'') (lit_ci ''accessibility'')],
           lit_ci ''availability of data'',
           lit_ci ''data sharing statement'']"

text \<open>
  \<open>soup.find_all(re.compile('^h[1-6]$'))\<close> yields the headings in document order;
  \<open>h.next_siblings\<close> are the nodes after \<open>h\<close> under the same parent. \<open>headings\<close> lists
  each heading with its next siblings.
\<close>

fun headings :: "node list \<Rightarrow> (node \<times> node list) list" where
  "headings [] = []"
| "headings (NavigableString s # rest) = headings rest"
| "headings (Tag name attrs kids # rest) =
     (if found (whole heading_name_rx) name then [(Tag name attrs kids, rest)] else [])
     @ headings kids @ headings rest"

text \<open>The loop over the siblings (lines 115--121), which breaks at the first sibling
  that is a heading, of whatever level.\<close>

fun fragments :: "node list \<Rightarrow> string list" where
  "fragments [] = []"
| "fragments (sib # rest) =
     (if is_heading sib then []
      else (case sib of
              NavigableString s \<Rightarrow> strip s
            | Tag name attrs kids \<Rightarrow> get_text_strip [sib]) # fragments rest)"

text \<open>The loop over the headings (lines 110--124): it returns at the first heading
  whose text matches and whose statement is not empty.\<close>

fun heading_strategy ::
  "(string \<Rightarrow> string) \<Rightarrow> (node \<times> node list) list \<Rightarrow> (string \<times> string) option" where
  "heading_strategy unescape [] = None"
| "heading_strategy unescape ((h, sibs) # rest) =
     (if found (whole das_heading_rx) (get_text [h])
      then (let section = clean_text_fc unescape (get_text [h]);
                statement = clean_text_fc unescape (join '' '' (fragments sibs))
            in if statement \<noteq> [] then Some (section, statement)
               else heading_strategy unescape rest)
      else heading_strategy unescape rest)"

text \<open>The three inline patterns (lines 128--132), used with \<open>re.I\<close> on the text of the
  whole page; the first that is found gives the statement (\<open>group(0)\<close>).\<close>

definition inline_tail :: "rx list" where
  "inline_tail = [Star (none_of '':''), one_of [CHR '':'', CHR ''.'', CHR 0x0A],
                  Star (Sym is_space), Rep dot 0 1000]"

definition inline_patterns :: "rx list" where
  "inline_patterns =
    [seqs ([lit_ci ''Data '', Alt (lit_ci ''availability'') (lit_ci ''accessibility'')] @ inline_tail),
     seqs (lit_ci ''Availability of data'' # inline_tail),
     seqs (lit_ci ''Data sharing statement'' # inline_tail)]"

fun inline_strategy :: "(string \<Rightarrow> string) \<Rightarrow> rx list \<Rightarrow> string \<Rightarrow> string option" where
  "inline_strategy unescape [] page_text = None"
| "inline_strategy unescape (p # ps) page_text =
     (case re_search (whole p) page_text of
        Some (g, m) \<Rightarrow> Some (clean_text_fc unescape m)
      | None \<Rightarrow> inline_strategy unescape ps page_text)"

text \<open>\<open>soup.find("meta", {"name": "citation_data_availability"})\<close>: the first such tag;
  its \<open>content\<close> when it has one.\<close>

definition meta_strategy :: "(string \<Rightarrow> string) \<Rightarrow> soup \<Rightarrow> string option" where
  "meta_strategy unescape sp =
     (case List.find (\<lambda>n. map_of (tag_attrs n) ''name'' = Some ''citation_data_availability'')
             (find_all_named ''meta'' sp) of
        None \<Rightarrow> None
      | Some meta \<Rightarrow>
          (case map_of (tag_attrs meta) ''content'' of
             None \<Rightarrow> None
           | Some content \<Rightarrow> Some (clean_text_fc unescape content)))"

text \<open>\<open>fetch_data_availability\<close>: the landing page of the DOI is requested (without
  \<open>raise_for_status\<close>) and parsed; any exception gives two empty strings.\<close>

definition locate_statement :: "(string \<Rightarrow> string) \<Rightarrow> soup \<Rightarrow> string \<times> string" where
  "locate_statement unescape sp =
     (case heading_strategy unescape (headings sp) of
        Some found_pair \<Rightarrow> found_pair
      | None \<Rightarrow>
          (case inline_strategy unescape inline_patterns (get_text_strip sp) of
             Some statement \<Rightarrow> ([], statement)
           | None \<Rightarrow>
               (case meta_strategy unescape sp of
                  Some statement \<Rightarrow> ([], statement)
                | None \<Rightarrow> ([], []))))"

definition fetch_data_availability ::
  "(string \<Rightarrow> string) \<Rightarrow> world \<Rightarrow> string \<Rightarrow> string \<times> string" where
  "fetch_data_availability unescape w doi =
     (case requests_get w (''https://doi.org/'' @ doi) of
        Inl e \<Rightarrow> ([], [])
      | Inr r \<Rightarrow>
          (case BeautifulSoup w (resp_text r) of
             Inl e \<Rightarrow> ([], [])
           | Inr sp \<Rightarrow> locate_statement unescape sp))"

section \<open>fair\_champion.py: score\_fairness\<close>

text \<open>
  The paper's DOI is first removed from the statement with \<open>str.replace\<close>; then the DOI
  pattern is applied, the matches equal to the paper's DOI (lower-cased) are dropped,
  and three more patterns are searched, all with \<open>re.I\<close>.
\<close>

definition statement_dataset_dois :: "string \<Rightarrow> string \<Rightarrow> string list" where
  "statement_dataset_dois statement paper_doi =
     (let stmt = replace paper_doi [] statement;
          dois = findall (whole doi_rx) stmt
      in filter (\<lambda>d. lower d \<noteq> lower paper_doi) dois)"

definition repository_mention_rx :: rx where
  "repository_mention_rx = alts (map lit_ci
     [''ENA'', ''European Nucleotide Archive'', ''GEO'', ''Gene Expression Omnibus'',
      ''Figshare'', ''Zenodo'', ''Dryad'', ''ArrayExpress'', ''EBI'', ''GenBank'', ''PRIDE'',
      ''PDB'', ''OSF'', ''Dataverse'', ''Mendeley Data'', ''MG-RAST''])"

definition format_mention_rx :: rx where
  "format_mention_rx = alts (map lit_ci
     [''FASTA'', ''CSV'', ''JSON'', ''TSV'', ''TXT'', ''HDF5'', ''BAM'', ''VCF'', ''XML'',
      ''NetCDF'', ''raw data'', ''supplementary data''])"

definition license_mention_rx :: rx where
  "license_mention_rx =
     alts [seqs [lit_ci ''CC'', opt (one_of ''- ''), Alt (lit_ci ''BY'') (chr CHR ''0'')],
           lit_ci ''Creative Commons'', lit_ci ''open license'', lit_ci ''MIT license'',
           lit_ci ''public domain'', lit_ci ''available under'']"

definition point :: "bool \<Rightarrow> int" where
  "point b = (if b then 1 else 0)"

definition score_fairness :: "string \<Rightarrow> string \<Rightarrow> int" where
  "score_fairness statement paper_doi =
     (if statement = [] then 0
      else (let stmt = replace paper_doi [] statement
            in point (statement_dataset_dois statement paper_doi \<noteq> [])
             + point (found (whole repository_mention_rx) stmt)
             + point (found (whole format_mention_rx) stmt)
             + point (found (whole license_mention_rx) stmt)))"

section \<open>Notions used in the statements\<close>

text \<open>
  The four signals of the specification's rubric, and the rubric itself: the score is
  the number of non-empty signals.
\<close>

definition signals :: "assessment \<Rightarrow> string list" where
  "signals r = [repository r, dataset_doi r, file_formats r, license r]"

definition score_ok :: "assessment \<Rightarrow> bool" where
  "score_ok r = (fair_score r = int (length (filter (\<lambda>s. s \<noteq> []) (signals r))))"

text \<open>The text that the \<open>except\<close> clause for an exception puts into \<open>accessibility\<close>.\<close>

definition describe :: "exn \<Rightarrow> string" where
  "describe e = (case e of Exn c msg \<Rightarrow>
     (case c of Timeout \<Rightarrow> ''Error: Request timeout''
      | RequestException \<Rightarrow> ''Error: '' @ take 100 msg
      | OtherException \<Rightarrow> ''Parse Error: '' @ take 100 msg))"

text \<open>
  The first \<open>k\<close> members of a set in ascending order, joined as the source joins them;
  the set \<open>filenames\<close> of lines 245--255; the set \<open>formats\<close> of lines 273--280, given
  the value of \<open>result['file_name']\<close>.
\<close>

definition shown :: "nat \<Rightarrow> string list \<Rightarrow> string" where
  "shown k xs = join '', '' (take k (sort (remdups xs)))"

definition extracted_filenames :: "world \<Rightarrow> string \<Rightarrow> string \<Rightarrow> string list" where
  "extracted_filenames w link html_content =
     (let from_api = (if identify_repository link = ''Mendeley Data''
                      then extract_mendeley_files w link else [])
      in if from_api = [] then extract_filenames_from_html html_content else from_api)"

definition extracted_formats :: "string \<Rightarrow> soup \<Rightarrow> string \<Rightarrow> string list" where
  "extracted_formats html_content sp names =
     extract_formats_from_html html_content sp
     @ (if names \<noteq> [] then formats_of_file_name names else [])"

text \<open>\<open>completed e r r'\<close>: a step that started with the dictionary \<open>r\<close> and ended with
  \<open>r'\<close> either ran to the end of the body, or raised and left \<open>accessibility\<close> alone.\<close>

definition completed :: "exn option \<Rightarrow> assessment \<Rightarrow> assessment \<Rightarrow> bool" where
  "completed e r r' = (case e of None \<Rightarrow> accessibility r' = ''Accessible''
                       | Some x \<Rightarrow> accessibility r' = accessibility r)"

text \<open>\<open>always_has Q r\<close>: every text that \<open>r\<close> matches has a character with \<open>Q\<close>.\<close>

fun always_has :: "(char \<Rightarrow> bool) \<Rightarrow> rx \<Rightarrow> bool" where
  "always_has Q (Sym P) = (\<forall>c. P c \<longrightarrow> Q c)"
| "always_has Q Eps = False"
| "always_has Q (Seq r s) = (always_has Q r \<or> always_has Q s)"
| "always_has Q (Alt r s) = (always_has Q r \<and> always_has Q s)"
| "always_has Q (Star r) = False"
| "always_has Q (Rep r m n) = (0 < m \<and> 0 < n \<and> always_has Q r)"
| "always_has Q Bol = False"
| "always_has Q Eol = False"
| "always_has Q Wordb = False"


text \<open>A world in which every request times out.\<close>

definition world_timeout :: world where
  "world_timeout =
     \<lparr> requests_get = (\<lambda>u. Inl (Exn Timeout ''Read timed out'')),
       BeautifulSoup = (\<lambda>t. Inr []),
       fault = (\<lambda>site. None) \<rparr>"



definition empty_page :: response where
  "empty_page = \<lparr> status_code = 200, resp_text = [], json_body = None, http_error = None \<rparr>"



text \<open>What holds of the dictionary after a step that starts with an empty
  \<open>file_formats\<close>.\<close>

definition fields_post ::
  "world \<Rightarrow> string \<Rightarrow> soup \<Rightarrow> assessment \<Rightarrow> exn option \<Rightarrow> assessment \<Rightarrow> bool" where
  "fields_post w html_content sp r e r' =
     (url r' = url r \<and> completed e r r'
      \<and> (file_formats r' = []
           \<or> file_formats r' = shown MAX_FORMATS_TO_DISPLAY (extracted_formats html_content sp (file_name r')))
      \<and> (e = None \<longrightarrow> file_formats r' =
            (if extracted_formats html_content sp (file_name r') = [] then []
             else shown MAX_FORMATS_TO_DISPLAY (extracted_formats html_content sp (file_name r')))))"

text \<open>What holds of \<open>dataset_doi\<close> and \<open>file_name\<close> after the steps that set them, for
  the set \<open>filenames\<close> that was extracted.\<close>

definition names_post ::
  "world \<Rightarrow> string \<Rightarrow> string \<Rightarrow> string list \<Rightarrow> exn option \<Rightarrow> assessment \<Rightarrow> bool" where
  "names_post w page_text paper_doi filenames e r' =
     ((dataset_doi r' = [] \<or> dataset_doi r' = extract_dataset_doi page_text paper_doi)
      \<and> (file_name r' = []
           \<or> (filenames \<noteq> [] \<and> file_name r' = shown MAX_FILES_TO_DISPLAY filenames)
           \<or> (filenames = [] \<and> dataset_doi r' \<noteq> []
               \<and> file_name r' = query_datacite_api w (dataset_doi r')))
      \<and> (e = None \<longrightarrow> dataset_doi r' = extract_dataset_doi page_text paper_doi
            \<and> file_name r' =
                 (if filenames \<noteq> [] then shown MAX_FILES_TO_DISPLAY filenames
                  else if dataset_doi r' \<noteq> [] then query_datacite_api w (dataset_doi r')
                  else [])))"

section \<open>The statement under a heading\<close>

text \<open>
  The text of one sibling, the siblings that belong to a heading (those before the next
  sibling that is a heading of whatever level), and the statement made of them.
\<close>

definition fragment_text :: "node \<Rightarrow> string" where
  "fragment_text sib = (case sib of
      NavigableString s \<Rightarrow> strip s
    | Tag name attrs kids \<Rightarrow> get_text_strip [sib])"

definition section_nodes :: "node list \<Rightarrow> node list" where
  "section_nodes sibs = takeWhile (\<lambda>sib. \<not> is_heading sib) sibs"

definition statement_of :: "(string \<Rightarrow> string) \<Rightarrow> node list \<Rightarrow> string" where
  "statement_of unescape sibs =
     clean_text_fc unescape (join '' '' (map fragment_text (section_nodes sibs)))"

definition das_heading :: "node \<Rightarrow> bool" where
  "das_heading h = found (whole das_heading_rx) (get_text [h])"

definition group0 :: "rx \<Rightarrow> string \<Rightarrow> string" where
  "group0 p page_text = (case re_search (whole p) page_text of
      None \<Rightarrow> []
    | Some (g, m) \<Rightarrow> m)"

text \<open>
  The other reading of the heading strategy: the section of a heading ends at the next
  heading of equal or higher prominence, that is, of the same or a smaller level number,
  and the first heading that matches gives the result.
\<close>

definition heading_level :: "node \<Rightarrow> nat" where
  "heading_level n = (case n of
      Tag (h # d # rest) attrs kids \<Rightarrow> of_char d - 48
    | _ \<Rightarrow> 0)"

definition section_nodes_by_level :: "node \<Rightarrow> node list \<Rightarrow> node list" where
  "section_nodes_by_level h sibs =
     takeWhile (\<lambda>sib. \<not> (is_heading sib \<and> heading_level sib \<le> heading_level h)) sibs"

definition heading_strategy_by_level ::
  "(string \<Rightarrow> string) \<Rightarrow> (node \<times> node list) list \<Rightarrow> (string \<times> string) option" where
  "heading_strategy_by_level unescape hs =
     (case List.find (\<lambda>(h, sibs). das_heading h) hs of
        None \<Rightarrow> None
      | Some (h, sibs) \<Rightarrow>
          Some (clean_text_fc unescape (get_text [h]),
                clean_text_fc unescape
                  (join '' '' (map fragment_text (section_nodes_by_level h sibs)))))"

text \<open>A page with a subsection under its data-availability heading, and a world that
  serves it for every request.\<close>

definition article :: soup where
  "article = [Tag ''html'' [] [Tag ''body'' []
     [Tag ''h2'' [] [NavigableString ''Data availability''],
      Tag ''p'' [] [NavigableString ''Data are on Zenodo.''],
      Tag ''h3'' [] [NavigableString ''Code''],
      Tag ''p'' [] [NavigableString ''Code is on GitHub.''],
      Tag ''h2'' [] [NavigableString ''References'']]]]"

definition world_article :: world where
  "world_article = \<lparr> requests_get = (\<lambda>link. Inr empty_page),
                     BeautifulSoup = (\<lambda>markup. Inr article),
                     fault = (\<lambda>site. None) \<rparr>"

section \<open>Facts about the matcher\<close>

lemma matches_advance:
  "q \<in> set (matches r p) \<Longrightarrow> \<exists>u. snd p = u @ snd q \<and> fst q = rev u @ fst p"
proof (induction r p arbitrary: q rule: matches.induct)
  case (1 P b a)
  then show ?case by (auto split: list.splits if_splits)
next
  case (2 p)
  then show ?case by simp
next
  case (3 r s p)
  from "3.prems" obtain m where m: "m \<in> set (matches r p)" and q: "q \<in> set (matches s m)"
    by auto
  from "3.IH"(1)[OF m] obtain u where u: "snd p = u @ snd m" "fst m = rev u @ fst p" by blast
  from "3.IH"(2)[OF m q] obtain v where v: "snd m = v @ snd q" "fst q = rev v @ fst m" by blast
  have "snd p = (u @ v) @ snd q \<and> fst q = rev (u @ v) @ fst p" using u v by simp
  then show ?case by blast
next
  case (4 r s p)
  then show ?case by auto
next
  case (5 r p)
  show ?case
  proof (cases "q = p")
    case True
    then show ?thesis by simp
  next
    case False
    with "5.prems" obtain m where m: "m \<in> set (matches r p)"
      and lt: "length (snd m) < length (snd p)" and q: "q \<in> set (matches (Star r) m)"
      by (subst (asm) matches.simps(5)) auto
    from "5.IH"(1)[OF m] obtain u where u: "snd p = u @ snd m" "fst m = rev u @ fst p" by blast
    have "m \<in> set (filter (\<lambda>q. length (snd q) < length (snd p)) (matches r p))"
      using m lt by simp
    from "5.IH"(2)[OF this q] obtain v where v: "snd m = v @ snd q" "fst q = rev v @ fst m" by blast
    have "snd p = (u @ v) @ snd q \<and> fst q = rev (u @ v) @ fst p" using u v by simp
    then show ?thesis by blast
  qed
next
  case (6 r m n p)
  show ?case
  proof (cases "n = 0 \<or> q = p")
    case True
    with "6.prems" show ?thesis by (subst (asm) matches.simps(6)) auto
  next
    case False
    then have n: "n \<noteq> 0" and qp: "q \<noteq> p" by auto
    with "6.prems" obtain x where x: "x \<in> set (matches r p)"
      and q: "q \<in> set (matches (Rep r (m - 1) (n - 1)) x)"
      by (subst (asm) matches.simps(6)) (auto split: if_splits)
    from "6.IH"(1)[OF n x] obtain u where u: "snd p = u @ snd x" "fst x = rev u @ fst p" by blast
    from "6.IH"(2)[OF n x q] obtain v where v: "snd x = v @ snd q" "fst q = rev v @ fst x" by blast
    have "snd p = (u @ v) @ snd q \<and> fst q = rev (u @ v) @ fst p" using u v by simp
    then show ?thesis by blast
  qed
next
  case (7 b a)
  then show ?case by (auto split: if_splits)
next
  case (8 b a)
  then show ?case by (auto split: if_splits)
next
  case (9 b a)
  then show ?case by (auto split: if_splits)
qed

lemma between_advance:
  assumes "snd p = u @ snd q"
  shows "between p q = u"
  using assms by (simp add: between_def)

lemma matches_always_has:
  "q \<in> set (matches r p) \<Longrightarrow> always_has Q r \<Longrightarrow> \<exists>c \<in> set (between p q). Q c"
proof (induction r p arbitrary: q rule: matches.induct)
  case (1 P b a)
  then show ?case by (auto simp: between_def split: list.splits if_splits)
next
  case (3 r s p)
  from "3.prems" obtain m where m: "m \<in> set (matches r p)" and q: "q \<in> set (matches s m)"
    by auto
  from matches_advance[OF m] obtain u where u: "snd p = u @ snd m" by blast
  from matches_advance[OF q] obtain v where v: "snd m = v @ snd q" by blast
  have b: "between p q = u @ v" using u v by (simp add: between_def)
  have bu: "between p m = u" using u by (simp add: between_def)
  have bv: "between m q = v" using v by (simp add: between_def)
  from "3.prems"(2) have "always_has Q r \<or> always_has Q s" by simp
  then show ?case
  proof
    assume "always_has Q r"
    from "3.IH"(1)[OF m this] show ?thesis using b bu by auto
  next
    assume "always_has Q s"
    from "3.IH"(2)[OF m q this] show ?thesis using b bv by auto
  qed
next
  case (4 r s p)
  from "4.prems"(2) have ar: "always_has Q r" and as: "always_has Q s" by simp_all
  from "4.prems"(1) have "q \<in> set (matches r p) \<or> q \<in> set (matches s p)" by simp
  then show ?case
  proof
    assume "q \<in> set (matches r p)"
    from "4.IH"(1)[OF this ar] show ?thesis .
  next
    assume "q \<in> set (matches s p)"
    from "4.IH"(2)[OF this as] show ?thesis .
  qed
next
  case (6 r m n p)
  from "6.prems"(2) have n: "n \<noteq> 0" and mpos: "0 < m" and ah: "always_has Q r" by auto
  with "6.prems"(1) obtain x where x: "x \<in> set (matches r p)"
    and q: "q \<in> set (matches (Rep r (m - 1) (n - 1)) x)"
    by (subst (asm) matches.simps(6)) (auto split: if_splits)
  from matches_advance[OF x] obtain u where u: "snd p = u @ snd x" by blast
  from matches_advance[OF q] obtain v where v: "snd x = v @ snd q" by blast
  have b: "between p q = u @ v" using u v by (simp add: between_def)
  have bu: "between p x = u" using u by (simp add: between_def)
  from "6.IH"(1)[OF n x ah] show ?case using b bu by auto
qed simp_all

lemma findall_from_elem:
  "x \<in> set (findall_from pt p) \<Longrightarrow>
     \<exists>q p1 p2 p3. match_at pt q = Some (p1, p2, p3) \<and> x = between p1 p2"
proof (induction pt p rule: findall_from.induct)
  case (1 pt b a)
  show ?case
  proof (cases "match_at pt (b, a)")
    case None
    have "findall_from pt (b, a) =
            (case a of [] \<Rightarrow> [] | c # cs \<Rightarrow> findall_from pt (c # b, cs))"
      by (subst findall_from.simps) (simp add: None)
    with "1.prems" obtain c cs where a: "a = c # cs"
      and x: "x \<in> set (findall_from pt (c # b, cs))"
      by (cases a) auto
    from "1.IH"(1)[OF None a x] show ?thesis .
  next
    case (Some t)
    obtain p1 p2 p3 where t: "t = (p1, p2, p3)" by (cases t) auto
    have eq: "findall_from pt (b, a) =
            (if length (snd p3) < length a then between p1 p2 # findall_from pt p3
             else (case a of [] \<Rightarrow> [between p1 p2]
                   | c # cs \<Rightarrow> between p1 p2 # findall_from pt (c # b, cs)))"
      by (subst findall_from.simps) (simp add: Some t)
    show ?thesis
    proof (cases "x = between p1 p2")
      case True
      with Some t show ?thesis by blast
    next
      case False
      show ?thesis
      proof (cases "length (snd p3) < length a")
        case True
        with "1.prems" eq False have "x \<in> set (findall_from pt p3)" by simp
        from "1.IH"(2)[OF Some t[symmetric] refl True this] show ?thesis .
      next
        case nlt: False
        with "1.prems" eq False obtain c cs where a: "a = c # cs"
          and x: "x \<in> set (findall_from pt (c # b, cs))"
          by (cases a) auto
        from "1.IH"(3)[OF Some t[symmetric] refl nlt a x] show ?thesis .
      qed
    qed
  qed
qed

lemma match_at_whole:
  "match_at (whole r) q = Some (p1, p2, p3) \<Longrightarrow> p1 = q \<and> p2 \<in> set (matches r q) \<and> p3 = p2"
  unfolding match_at_def whole_def
  by (cases "matches r q") (auto split: list.splits)

lemma findall_whole_has:
  assumes "x \<in> set (findall (whole r) s)" and "always_has Q r"
  shows "\<exists>c \<in> set x. Q c"
proof -
  from assms(1) obtain q p1 p2 p3 where m: "match_at (whole r) q = Some (p1, p2, p3)"
    and x: "x = between p1 p2"
    unfolding findall_def by (blast dest: findall_from_elem)
  from match_at_whole[OF m] have "p1 = q" "p2 \<in> set (matches r q)" by auto
  with matches_always_has[OF _ assms(2)] x show ?thesis by blast
qed

section \<open>Extracted formats are never empty strings\<close>

lemma upper_char_nonempty: "upper_char c \<noteq> []"
  by (simp add: upper_char_def Let_def)

lemma upper_eq_Nil: "upper s = [] \<longleftrightarrow> s = []"
  by (cases s) (simp_all add: upper_def upper_char_nonempty)

lemma upper_char_nondot:
  assumes "c \<noteq> CHR ''.''"
  shows "\<exists>d \<in> set (upper_char c). d \<noteq> CHR ''.''"
proof -
  let ?n = "of_char c :: nat"
  show ?thesis
  proof (cases "(97 \<le> ?n \<and> ?n \<le> 122) \<or> (224 \<le> ?n \<and> ?n \<le> 254 \<and> ?n \<noteq> 247)")
    case True
    then have u: "upper_char c = [char_of (?n - 32)]" by (simp add: upper_char_def Let_def)
    have "char_of (?n - 32) \<noteq> CHR ''.''"
    proof
      assume "char_of (?n - 32) = CHR ''.''"
      then have "of_char (char_of (?n - 32) :: char) = (of_char CHR ''.'' :: nat)" by simp
      then have "(?n - 32) mod 256 = 46" by simp
      moreover have "?n < 256" by (rule nat_of_char_less_256)
      ultimately show False using True by auto
    qed
    with u show ?thesis by simp
  next
    case False
    then show ?thesis using assms by (auto simp: upper_char_def Let_def)
  qed
qed

lemma upper_nondot:
  assumes "\<exists>c \<in> set s. c \<noteq> CHR ''.''"
  shows "lstrip_dots (upper s) \<noteq> []"
proof -
  from assms obtain c where c: "c \<in> set s" "c \<noteq> CHR ''.''" by blast
  from upper_char_nondot[OF c(2)] obtain d where d: "d \<in> set (upper_char c)" "d \<noteq> CHR ''.''"
    by blast
  from c(1) d(1) have "d \<in> set (upper s)" by (auto simp: upper_def)
  with d(2) show ?thesis by (auto simp: lstrip_dots_def dropWhile_eq_Nil_conv)
qed

lemma lower_char_lower_ascii: "is_lower_ascii x \<Longrightarrow> lower_char x = x"
proof -
  have "list_all (\<lambda>x. lower_char x = x) ''abcdefghijklmnopqrstuvwxyz''" by code_simp
  then show "is_lower_ascii x \<Longrightarrow> lower_char x = x"
    unfolding is_lower_ascii_def list_all_iff by blast
qed

lemma lower_ascii_not_dot: "is_lower_ascii x \<Longrightarrow> x \<noteq> CHR ''.''"
proof -
  have "list_all (\<lambda>x. x \<noteq> CHR ''.'') ''abcdefghijklmnopqrstuvwxyz''" by code_simp
  then show "is_lower_ascii x \<Longrightarrow> x \<noteq> CHR ''.''"
    unfolding is_lower_ascii_def list_all_iff by blast
qed

lemma always_has_ci:
  assumes "is_lower_ascii x"
  shows "always_has (\<lambda>c. c \<noteq> CHR ''.'') (ci x)"
proof -
  have "lower_char CHR ''.'' = CHR ''.''" by (simp add: lower_char_def)
  moreover have "x \<noteq> CHR ''.''" using assms by (rule lower_ascii_not_dot)
  ultimately show ?thesis using lower_char_lower_ascii[OF assms] by (auto simp: ci_def)
qed

lemma always_has_alts: "(\<forall>r \<in> set rs. always_has Q r) \<Longrightarrow> always_has Q (alts rs)"
  by (induction rs rule: alts.induct) (simp_all add: never_def)

lemma always_has_seqs_hd: "always_has Q r \<Longrightarrow> always_has Q (seqs (r # rs))"
  by (cases rs) simp_all

lemma always_has_seqs_tl: "rs \<noteq> [] \<Longrightarrow> always_has Q (seqs rs) \<Longrightarrow> always_has Q (seqs (r # rs))"
  by (cases rs) simp_all

lemma always_has_lit_ci:
  "is_lower_ascii c \<Longrightarrow> always_has (\<lambda>c. c \<noteq> CHR ''.'') (lit_ci (c # cs))"
  unfolding lit_ci_def by (simp add: always_has_seqs_hd always_has_ci)

lemma always_has_ext_rx:
  assumes "e \<in> set FILE_EXTENSIONS"
  shows "always_has (\<lambda>c. c \<noteq> CHR ''.'') (ext_rx e)"
proof -
  have "list_all (\<lambda>e. e \<noteq> [] \<and> is_lower_ascii (hd e)) FILE_EXTENSIONS" by code_simp
  with assms have "e \<noteq> [] \<and> is_lower_ascii (hd e)" unfolding list_all_iff by blast
  then obtain c cs where e: "e = c # cs" and c: "is_lower_ascii c" by (cases e) auto
  then have "c \<noteq> CHR ''.''" by (simp add: lower_ascii_not_dot)
  with e c show ?thesis
    unfolding ext_rx_def by (simp add: always_has_seqs_hd always_has_ci)
qed

lemma always_has_ext_pattern: "always_has (\<lambda>c. c \<noteq> CHR ''.'') ext_pattern"
  unfolding ext_pattern_def by (rule always_has_alts) (simp add: always_has_ext_rx)

lemma always_has_format_patterns:
  assumes "pat \<in> set format_patterns"
  shows "always_has (\<lambda>c. c \<noteq> CHR ''.'') pat"
proof -
  have w: "\<And>c cs. is_lower_ascii c \<Longrightarrow> always_has (\<lambda>c. c \<noteq> CHR ''.'') (lit_ci (c # cs))"
    by (rule always_has_lit_ci)
  have l: "is_lower_ascii CHR ''f''" "is_lower_ascii CHR ''d''" "is_lower_ascii CHR ''h''"
    by (simp_all add: is_lower_ascii_def)
  have p1: "always_has (\<lambda>c. c \<noteq> CHR ''.'')
     (alts [lit_ci ''file'', lit_ci ''download'', lit_ci ''dataset'', lit_ci ''data''])"
    by (rule always_has_alts) (simp add: w l)
  from assms consider
      (a) "pat = seqs [alts [lit_ci ''file'', lit_ci ''download'', lit_ci ''dataset'', lit_ci ''data''],
           plus (Sym is_space), Rep (none_of ''<>'') 0 50, chr CHR ''.'', ext_pattern, Wordb]"
    | (b) "pat = seqs [chr CHR ''.'', ext_pattern, plus (Sym is_space),
           alts [lit_ci ''file'', lit_ci ''download'', lit_ci ''format'']]"
    | (c) "pat = seqs [lit_ci ''href='', quote, Star not_quote, chr CHR ''.'', ext_pattern, quote]"
    | (d) "pat = seqs [lit_ci ''data-'', Star (none_of ''=''), chr CHR ''='', quote, Star not_quote,
           chr CHR ''.'', ext_pattern, quote]"
    unfolding format_patterns_def by auto
  then show ?thesis
  proof cases
    case a
    show ?thesis unfolding a by (rule always_has_seqs_hd) (rule p1)
  next
    case b
    show ?thesis unfolding b
      by (rule always_has_seqs_tl, simp, rule always_has_seqs_hd, rule always_has_ext_pattern)
  next
    case c
    show ?thesis unfolding c by (rule always_has_seqs_hd) (simp add: w l)
  next
    case d
    show ?thesis unfolding d by (rule always_has_seqs_hd) (simp add: w l)
  qed
qed

lemma html_formats_nonempty:
  assumes "pat \<in> set format_patterns" and "m \<in> set (findall (whole pat) html_content)"
  shows "lstrip_dots (upper m) \<noteq> []"
  by (rule upper_nondot) (rule findall_whole_has[OF assms(2) always_has_format_patterns[OF assms(1)]])

lemma meta_formats_nonempty: "[] \<notin> set (meta_formats sp)"
proof
  assume "[] \<in> set (meta_formats sp)"
  then obtain ext where "ext \<in> set FILE_EXTENSIONS" and "upper ext = []"
    unfolding meta_formats_def by (auto simp: Let_def split: if_splits)
  moreover have "list_all (\<lambda>e. e \<noteq> []) FILE_EXTENSIONS" by code_simp
  ultimately show False unfolding list_all_iff by (auto simp: upper_eq_Nil)
qed

lemma extract_formats_nonempty: "[] \<notin> set (extract_formats_from_html html_content sp)"
proof
  assume "[] \<in> set (extract_formats_from_html html_content sp)"
  then consider
      (html) pat m where "pat \<in> set format_patterns"
        "m \<in> set (findall (whole pat) html_content)" "lstrip_dots (upper m) = []"
    | (meta) "[] \<in> set (meta_formats sp)"
    unfolding extract_formats_from_html_def by auto
  then show False
  proof cases
    case html
    with html_formats_nonempty show False by blast
  next
    case meta
    with meta_formats_nonempty show False by blast
  qed
qed

lemma match_at_parts:
  assumes "match_at (pre, grp, suf) q = Some (p1, p2, p3)"
  shows "p1 \<in> set (matches pre q) \<and> p2 \<in> set (matches grp p1) \<and> p3 \<in> set (matches suf p2)"
proof -
  let ?all = "concat (map (\<lambda>p1. concat (map (\<lambda>p2. map (\<lambda>p3. (p1, p2, p3)) (matches suf p2))
                                          (matches grp p1))) (matches pre q))"
  from assms have "(p1, p2, p3) \<in> set ?all"
    unfolding match_at_def by (cases ?all) (auto split: list.splits)
  then show ?thesis by auto
qed

lemma search_from_elem:
  "search_from pt b a = Some (g, m) \<Longrightarrow>
     \<exists>q p1 p2 p3. match_at pt q = Some (p1, p2, p3) \<and> g = between p1 p2"
proof (induction pt b a rule: search_from.induct)
  case (1 pt b)
  then obtain p1 p2 p3 where "match_at pt (b, []) = Some (p1, p2, p3)" and "g = between p1 p2"
    by (auto split: option.splits)
  then show ?case by blast
next
  case (2 pt b c cs)
  show ?case
  proof (cases "match_at pt (b, c # cs)")
    case None
    with "2.prems" have "search_from pt (c # b) cs = Some (g, m)" by simp
    from "2.IH"[OF None this] show ?thesis .
  next
    case (Some t)
    obtain p1 p2 p3 where t: "t = (p1, p2, p3)" by (cases t) auto
    with "2.prems" Some have "g = between p1 p2" by simp
    with Some t show ?thesis by blast
  qed
qed

lemma always_has_plus: "always_has Q (Sym P) \<Longrightarrow> always_has Q (plus (Sym P))"
  by (simp add: plus_def)

lemma file_name_formats_nonempty: "[] \<notin> set (formats_of_file_name names)"
proof
  assume "[] \<in> set (formats_of_file_name names)"
  then obtain filename where
    f: "[] \<in> set (case re_search extension_pattern filename of
                    Some (g, m) \<Rightarrow> [upper g] | None \<Rightarrow> [])"
    unfolding formats_of_file_name_def by auto
  then obtain g m where s: "re_search extension_pattern filename = Some (g, m)"
    and u: "upper g = []"
    by (cases "re_search extension_pattern filename") auto
  from s obtain q p1 p2 p3 where ma: "match_at extension_pattern q = Some (p1, p2, p3)"
    and g: "g = between p1 p2"
    unfolding re_search_def by (blast dest: search_from_elem)
  from ma have "p2 \<in> set (matches (plus (Sym is_alnum_ascii)) p1)"
    unfolding extension_pattern_def by (blast dest: match_at_parts)
  from matches_always_has[OF this, of "\<lambda>c. True"] have "between p1 p2 \<noteq> []"
    by (auto simp: plus_def)
  with g u show False by (simp add: upper_eq_Nil)
qed

lemma join_nonempty:
  assumes "xs \<noteq> []" and "[] \<notin> set xs"
  shows "join sep xs \<noteq> []"
proof -
  from assms obtain x ys where xs: "xs = x # ys" and x: "x \<noteq> []" by (cases xs) auto
  show ?thesis unfolding xs using x by (cases ys) simp_all
qed

lemma join_take_sort_nonempty:
  assumes "xs \<noteq> []" and "[] \<notin> set xs" and "0 < k"
  shows "join sep (take k (sort (remdups xs))) \<noteq> []"
proof (rule join_nonempty)
  have "sort (remdups xs) \<noteq> []" using assms(1)
    by (metis length_0_conv length_sort remdups_eq_nil_iff)
  with assms(3) show "take k (sort (remdups xs)) \<noteq> []" by (cases k) auto
  have "set (take k (sort (remdups xs))) \<subseteq> set xs"
    using set_take_subset[of k "sort (remdups xs)"] by simp
  with assms(2) show "[] \<notin> set (take k (sort (remdups xs)))" by blast
qed

section \<open>The score through the body of assess\_dataset\_url\<close>

lemma assess_cases:
  "assess_dataset_url w link pd =
     (case try_body w link pd (initial_result link) of
        (None, r) \<Rightarrow> Inr r
      | (Some e, r) \<Rightarrow> Inr (r\<lparr>accessibility := describe e\<rparr>))"
  unfolding assess_dataset_url_def describe_def is_subclass_def
  by (auto split: prod.splits option.splits exn.splits exn_class.splits)

lemma attempt_snd:
  "score_ok r \<Longrightarrow> score_ok (snd k) \<Longrightarrow> score_ok (snd (attempt w site r k))"
  by (simp add: attempt_def split: option.splits)

lemma step_license_score:
  assumes "score_ok r" and "license r = []"
  shows "score_ok (snd (step_license w page_text r))"
  unfolding step_license_def
proof (rule attempt_snd)
  show "score_ok r" by fact
  show "score_ok (snd (let license_info = extract_license page_text;
            r1 = (if license_info \<noteq> []
                  then r\<lparr>license := license_info, fair_score := fair_score r + 1\<rparr>
                  else r)
        in (None, r1\<lparr>accessibility := ''Accessible''\<rparr>)))"
    using assms by (simp add: Let_def score_ok_def signals_def)
qed

lemma put_formats_score:
  assumes "score_ok r" and "license r = []" and "file_formats r = []" and "[] \<notin> set formats"
  shows "score_ok (snd (put_formats w page_text formats r))"
proof (cases "formats = []")
  case True
  then show ?thesis using assms by (simp add: put_formats_def step_license_score)
next
  case False
  let ?r' = "r\<lparr>file_formats :=
                 join '', '' (take MAX_FORMATS_TO_DISPLAY (sort (remdups formats))),
               fair_score := fair_score r + 1\<rparr>"
  have ne: "join '', '' (take MAX_FORMATS_TO_DISPLAY (sort (remdups formats))) \<noteq> []"
    by (rule join_take_sort_nonempty[OF False assms(4)]) (simp add: MAX_FORMATS_TO_DISPLAY_def)
  have ok: "score_ok ?r'" using assms(1,3) ne by (simp add: score_ok_def signals_def)
  have "license ?r' = []" using assms(2) by simp
  from step_license_score[OF ok this]
  have "score_ok (snd (step_license w page_text ?r'))" .
  with False assms(1) show ?thesis
    unfolding put_formats_def by (simp add: attempt_snd)
qed

lemma step_formats_score:
  assumes "score_ok r" and "license r = []" and "file_formats r = []"
  shows "score_ok (snd (step_formats w html_content sp page_text r))"
proof -
  have a: "[] \<notin> set (extract_formats_from_html html_content sp)"
    by (rule extract_formats_nonempty)
  have b: "[] \<notin> set (extract_formats_from_html html_content sp @ formats_of_file_name (file_name r))"
    using a file_name_formats_nonempty by simp
  show ?thesis
    unfolding step_formats_def Let_def
    by (auto intro!: attempt_snd put_formats_score assms a b)
qed

lemma step_doi_score:
  assumes "score_ok r" and "license r = []" and "file_formats r = []" and "dataset_doi r = []"
  shows "score_ok (snd (step_doi w html_content sp page_text paper_doi r))"
proof -
  let ?d = "extract_dataset_doi page_text paper_doi"
  let ?r1 = "r\<lparr>dataset_doi := ?d, fair_score := fair_score r + 1\<rparr>"
  have r1: "?d \<noteq> [] \<Longrightarrow> score_ok ?r1"
    using assms by (simp add: score_ok_def signals_def)
  have r1f: "?d \<noteq> [] \<Longrightarrow> score_ok (?r1\<lparr>file_name := x\<rparr>)" for x
    using assms by (simp add: score_ok_def signals_def)
  show ?thesis
    unfolding step_doi_def Let_def
    by (auto intro!: attempt_snd step_formats_score assms r1 r1f simp: assms)
qed

lemma put_file_name_score:
  assumes "score_ok r" and "license r = []" and "file_formats r = []" and "dataset_doi r = []"
  shows "score_ok (snd (put_file_name w html_content sp page_text paper_doi filenames r))"
proof -
  have f: "score_ok (r\<lparr>file_name := x\<rparr>)" for x
    using assms by (simp add: score_ok_def signals_def)
  show ?thesis
    unfolding put_file_name_def
    by (auto intro!: attempt_snd step_doi_score assms f simp: assms)
qed

lemma html_file_names_score:
  assumes "score_ok r" and "license r = []" and "file_formats r = []" and "dataset_doi r = []"
  shows "score_ok (snd (html_file_names w html_content sp page_text paper_doi filenames r))"
  unfolding html_file_names_def
  by (auto intro!: attempt_snd put_file_name_score assms)

lemma step_files_score:
  assumes "score_ok r" and "license r = []" and "file_formats r = []" and "dataset_doi r = []"
  shows "score_ok (snd (step_files w link html_content sp page_text paper_doi r))"
  unfolding step_files_def
  by (auto intro!: attempt_snd html_file_names_score assms)

lemma initial_score: "score_ok (initial_result link)"
  by (simp add: score_ok_def signals_def initial_result_def)

lemma try_body_score: "score_ok (snd (try_body w link paper_doi (initial_result link)))"
proof -
  let ?r = "initial_result link"
  have e: "license ?r = []" "file_formats ?r = []" "dataset_doi ?r = []" "repository ?r = []"
    "fair_score ?r = 0"
    by (simp_all add: initial_result_def)
  have k1: "score_ok (snd (step_files w link h sp pt paper_doi
             (?r\<lparr>repository := repo, fair_score := fair_score ?r + 1\<rparr>)))"
    if "repo \<noteq> []" for h sp pt repo
    by (rule step_files_score) (simp_all add: score_ok_def signals_def e that)
  have k2: "score_ok (snd (step_files w link h sp pt paper_doi (?r\<lparr>repository := []\<rparr>)))"
    for h sp pt
    by (rule step_files_score) (simp_all add: score_ok_def signals_def e)
  show ?thesis
    unfolding try_body_def Let_def
    by (auto split: sum.splits intro!: attempt_snd initial_score k1 k2)
qed

section \<open>The repository table\<close>


section \<open>The fields through the body of assess\_dataset\_url\<close>

lemma step_license_fields:
  assumes "step_license w page_text r = (e, r')"
  shows "url r' = url r \<and> file_name r' = file_name r \<and> file_formats r' = file_formats r
       \<and> dataset_doi r' = dataset_doi r \<and> completed e r r'"
  using assms
  by (auto simp: step_license_def attempt_def Let_def completed_def split: option.splits if_splits)

lemma put_formats_fields:
  assumes "put_formats w page_text formats r = (e, r')"
  shows "url r' = url r \<and> file_name r' = file_name r \<and> dataset_doi r' = dataset_doi r
       \<and> completed e r r'
       \<and> (file_formats r' = file_formats r \<or> file_formats r' = shown MAX_FORMATS_TO_DISPLAY formats)
       \<and> (e = None \<longrightarrow> file_formats r' =
             (if formats = [] then file_formats r else shown MAX_FORMATS_TO_DISPLAY formats))"
proof (cases "formats = []")
  case True
  with assms have "step_license w page_text r = (e, r')" by (simp add: put_formats_def)
  from step_license_fields[OF this] True show ?thesis by simp
next
  case False
  let ?r1 = "r\<lparr>file_formats := shown MAX_FORMATS_TO_DISPLAY formats, fair_score := fair_score r + 1\<rparr>"
  show ?thesis
  proof (cases "fault w 13")
    case (Some x)
    with assms False have "e = Some x" "r' = r"
      by (auto simp: put_formats_def attempt_def)
    then show ?thesis by (simp add: completed_def)
  next
    case None
    with assms False have "step_license w page_text ?r1 = (e, r')"
      by (simp add: put_formats_def attempt_def shown_def)
    from step_license_fields[OF this] False show ?thesis
      by (auto simp: completed_def split: option.splits)
  qed
qed

lemma step_formats_fields:
  assumes "step_formats w html_content sp page_text r = (e, r')"
  shows "url r' = url r \<and> file_name r' = file_name r \<and> dataset_doi r' = dataset_doi r
       \<and> completed e r r'
       \<and> (file_formats r' = file_formats r
            \<or> file_formats r' = shown MAX_FORMATS_TO_DISPLAY (extracted_formats html_content sp (file_name r)))
       \<and> (e = None \<longrightarrow> file_formats r' =
             (if extracted_formats html_content sp (file_name r) = [] then file_formats r
              else shown MAX_FORMATS_TO_DISPLAY (extracted_formats html_content sp (file_name r))))"
proof -
  let ?G = "extracted_formats html_content sp (file_name r)"
  have stop: ?thesis if "e = Some x" "r' = r" for x
    using that by (simp add: completed_def)
  show ?thesis
  proof (cases "fault w 11")
    case (Some x)
    with assms have "e = Some x" "r' = r" by (auto simp: step_formats_def attempt_def)
    then show ?thesis by (rule stop)
  next
    case n11: None
    show ?thesis
    proof (cases "file_name r = []")
      case True
      with assms n11 have "put_formats w page_text ?G r = (e, r')"
        by (simp add: step_formats_def attempt_def extracted_formats_def Let_def)
      from put_formats_fields[OF this] show ?thesis by simp
    next
      case False
      show ?thesis
      proof (cases "fault w 12")
        case (Some x)
        with assms n11 False have "e = Some x" "r' = r"
          by (auto simp: step_formats_def attempt_def Let_def)
        then show ?thesis by (rule stop)
      next
        case None
        with assms n11 False have "put_formats w page_text ?G r = (e, r')"
          by (simp add: step_formats_def attempt_def extracted_formats_def Let_def)
        from put_formats_fields[OF this] show ?thesis by simp
      qed
    qed
  qed
qed

lemma step_formats_post:
  assumes "step_formats w html_content sp page_text r = (e, r')" and "file_formats r = []"
  shows "fields_post w html_content sp r e r' \<and> file_name r' = file_name r
         \<and> dataset_doi r' = dataset_doi r"
  using step_formats_fields[OF assms(1)] assms(2) by (auto simp: fields_post_def)

lemma fields_post_raise: "fields_post w h sp r (Some x) r" if "file_formats r = []"
  using that by (simp add: fields_post_def completed_def)

lemma fields_post_update:
  assumes "fields_post w h sp r1 e r'" and "url r1 = url r" and "accessibility r1 = accessibility r"
  shows "fields_post w h sp r e r'"
  using assms by (auto simp: fields_post_def completed_def split: option.splits)

lemma step_doi_post:
  assumes "step_doi w html_content sp page_text paper_doi r = (e, r')"
    and "file_formats r = []" and "dataset_doi r = []"
  shows "fields_post w html_content sp r e r'
       \<and> (dataset_doi r' = [] \<or> dataset_doi r' = extract_dataset_doi page_text paper_doi)
       \<and> (file_name r' = file_name r
            \<or> (file_name r = [] \<and> dataset_doi r' \<noteq> []
                \<and> file_name r' = query_datacite_api w (dataset_doi r')))
       \<and> (e = None \<longrightarrow> dataset_doi r' = extract_dataset_doi page_text paper_doi
            \<and> file_name r' =
                 (if file_name r = [] \<and> dataset_doi r' \<noteq> []
                  then query_datacite_api w (dataset_doi r') else file_name r))"
proof -
  let ?d = "extract_dataset_doi page_text paper_doi"
  let ?r1 = "r\<lparr>dataset_doi := ?d, fair_score := fair_score r + 1\<rparr>"
  let ?dc = "query_datacite_api w ?d"
  have stop: ?thesis if "e = Some x" "r' = r" for x
    using that assms(2,3) by (simp add: fields_post_raise)
  show ?thesis
  proof (cases "fault w 9")
    case (Some x)
    with assms(1) have "e = Some x" "r' = r" by (auto simp: step_doi_def attempt_def)
    then show ?thesis by (rule stop)
  next
    case n9: None
    show ?thesis
    proof (cases "?d = []")
      case True
      with assms(1) n9 have s: "step_formats w html_content sp page_text r = (e, r')"
        by (simp add: step_doi_def attempt_def Let_def)
      from step_formats_post[OF s assms(2)] True assms(3) show ?thesis by auto
    next
      case d: False
      show ?thesis
      proof (cases "file_name r = []")
        case fn: False
        with assms(1) n9 d have s: "step_formats w html_content sp page_text ?r1 = (e, r')"
          by (simp add: step_doi_def attempt_def Let_def)
        have "file_formats ?r1 = []" using assms(2) by simp
        from step_formats_post[OF s this]
        have p: "fields_post w html_content sp ?r1 e r'" and f: "file_name r' = file_name r"
          and dd: "dataset_doi r' = ?d" by simp_all
        from fields_post_update[OF p] have "fields_post w html_content sp r e r'" by simp
        with f dd fn show ?thesis by simp
      next
        case fn: True
        show ?thesis
        proof (cases "fault w 10")
          case (Some x)
          with assms(1) n9 d fn have e: "e = Some x" and r': "r' = ?r1"
            by (auto simp: step_doi_def attempt_def Let_def)
          have "fields_post w html_content sp ?r1 (Some x) ?r1"
            by (rule fields_post_raise) (simp add: assms(2))
          from fields_post_update[OF this] have "fields_post w html_content sp r (Some x) ?r1"
            by simp
          with e r' fn show ?thesis by simp
        next
          case n10: None
          let ?r2 = "if ?dc \<noteq> [] then ?r1\<lparr>file_name := ?dc\<rparr> else ?r1"
          from assms(1) n9 d fn n10
          have s: "step_formats w html_content sp page_text ?r2 = (e, r')"
            by (simp add: step_doi_def attempt_def Let_def)
          have "file_formats ?r2 = []" using assms(2) by simp
          from step_formats_post[OF s this]
          have p: "fields_post w html_content sp ?r2 e r'" and f: "file_name r' = file_name ?r2"
            and dd: "dataset_doi r' = dataset_doi ?r2" by simp_all
          from fields_post_update[OF p] have fp: "fields_post w html_content sp r e r'" by simp
          from dd have dd': "dataset_doi r' = ?d" by simp
          from f fn have f': "file_name r' = ?dc" by simp
          from fp dd' f' fn d show ?thesis by simp
        qed
      qed
    qed
  qed
qed

section \<open>Extracted file names are never empty strings\<close>

lemma mendeley_names_nonempty: "mendeley_names fs = Some ns \<Longrightarrow> [] \<notin> set ns"
proof (induction fs arbitrary: ns)
  case Nil
  then show ?case by simp
next
  case (Cons f fs)
  show ?case
  proof (cases f)
    case (JObj kv)
    show ?thesis
    proof (cases "map_of kv ''filename''")
      case None
      with Cons JObj show ?thesis by simp
    next
      case (Some v)
      show ?thesis
      proof (cases "truthy v")
        case False
        with Cons JObj Some show ?thesis by simp
      next
        case True
        show ?thesis
        proof (cases v)
          case (JStr s)
          with True have s: "s \<noteq> []" by simp
          show ?thesis
          proof (cases "is_metadata_file s")
            case True
            with Cons JObj Some JStr s show ?thesis by simp
          next
            case False
            with Cons.prems JObj Some JStr s obtain ns' where
              "mendeley_names fs = Some ns'" "ns = s # ns'"
              by (auto simp: map_option_case split: option.splits)
            with Cons.IH s show ?thesis by auto
          qed
        qed (use Cons.prems JObj Some True in simp_all)
      qed
    qed
  qed (use Cons.prems in simp_all)
qed

lemma extract_mendeley_files_nonempty: "[] \<notin> set (extract_mendeley_files w link)"
proof (cases "re_search mendeley_id_pattern link")
  case None
  then show ?thesis by (simp add: extract_mendeley_files_def)
next
  case (Some gm)
  obtain dataset_id m where gm: "gm = (dataset_id, m)" by (cases gm) auto
  let ?u = "''https://data.mendeley.com/api/datasets/'' @ dataset_id @ ''/files''"
  show ?thesis
  proof (cases "requests_get w ?u")
    case (Inl e)
    with Some gm show ?thesis by (simp add: extract_mendeley_files_def)
  next
    case (Inr r)
    show ?thesis
    proof (cases "status_code r = 200")
      case False
      with Some gm Inr show ?thesis by (simp add: extract_mendeley_files_def)
    next
      case True
      show ?thesis
      proof (cases "json_body r")
        case None
        with Some gm Inr True show ?thesis by (simp add: extract_mendeley_files_def)
      next
        case sj: (Some j)
        show ?thesis
        proof (cases j)
          case (JArr files_data)
          show ?thesis
          proof (cases "mendeley_names files_data")
            case None
            with Some gm Inr True sj JArr show ?thesis
              by (simp add: extract_mendeley_files_def)
          next
            case sn: (Some ns)
            with Some gm Inr True sj JArr have "extract_mendeley_files w link = ns"
              by (simp add: extract_mendeley_files_def)
            with mendeley_names_nonempty[OF sn] show ?thesis by simp
          qed
        qed (use Some gm Inr True sj in \<open>simp_all add: extract_mendeley_files_def\<close>)
      qed
    qed
  qed
qed

lemma findall_group_nonempty:
  assumes "x \<in> set (findall (pre, grp, suf) s)" and "always_has (\<lambda>c. True) grp"
  shows "x \<noteq> []"
proof -
  from assms(1) obtain q p1 p2 p3 where m: "match_at (pre, grp, suf) q = Some (p1, p2, p3)"
    and x: "x = between p1 p2"
    unfolding findall_def by (blast dest: findall_from_elem)
  from match_at_parts[OF m] have "p2 \<in> set (matches grp p1)" by simp
  from matches_always_has[OF this assms(2)] x show ?thesis by auto
qed

lemma extract_filenames_nonempty: "[] \<notin> set (extract_filenames_from_html html_content)"
proof
  assume "[] \<in> set (extract_filenames_from_html html_content)"
  then obtain pt where pt: "pt \<in> set filename_patterns" and x: "[] \<in> set (findall pt html_content)"
    unfolding extract_filenames_from_html_def by auto
  from pt consider
      (a) "pt = (Eps,
             seqs [plus (Sym (\<lambda>c. is_alnum_ascii c \<or> c = CHR ''_'' \<or> c = CHR ''-'')),
                   chr CHR ''.'', ext_pattern], Eps)"
    | (b) "pt = (seqs [lit_ci ''filename'', opt quote, Star (Sym is_space), one_of '':='',
                   Star (Sym is_space), opt quote],
             seqs [plus (none_of [CHR 0x22, CHR 0x27, CHR ''>'', CHR 0x5C, CHR ''s'', CHR ''S'']),
                   chr CHR ''.'', ext_pattern],
             opt quote)"
    unfolding filename_patterns_def by auto
  then show False
  proof cases
    case a
    have "([]::string) \<noteq> []"
      by (rule findall_group_nonempty[OF x[unfolded a]]) (simp add: plus_def)
    then show False by simp
  next
    case b
    have "([]::string) \<noteq> []"
      by (rule findall_group_nonempty[OF x[unfolded b]]) (simp add: plus_def none_of_def)
    then show False by simp
  qed
qed

lemma extracted_filenames_nonempty: "[] \<notin> set (extracted_filenames w link html_content)"
  unfolding extracted_filenames_def Let_def
  using extract_mendeley_files_nonempty extract_filenames_nonempty by auto

lemma shown_nonempty:
  assumes "xs \<noteq> []" and "[] \<notin> set xs" and "0 < k"
  shows "shown k xs \<noteq> []"
  unfolding shown_def by (rule join_take_sort_nonempty[OF assms])

lemma names_post_raise: "names_post w pt pd F (Some x) r" if "file_name r = []" "dataset_doi r = []"
  using that by (simp add: names_post_def)

lemma put_file_name_post:
  assumes "put_file_name w html_content sp page_text paper_doi filenames r = (e, r')"
    and "file_formats r = []" and "dataset_doi r = []" and "file_name r = []"
    and "[] \<notin> set filenames"
  shows "fields_post w html_content sp r e r' \<and> names_post w page_text paper_doi filenames e r'"
proof (cases "filenames = []")
  case True
  with assms(1) have s: "step_doi w html_content sp page_text paper_doi r = (e, r')"
    by (simp add: put_file_name_def)
  from step_doi_post[OF s assms(2,3)] True assms(4) show ?thesis
    by (auto simp: names_post_def)
next
  case False
  let ?n = "shown MAX_FILES_TO_DISPLAY filenames"
  let ?r1 = "r\<lparr>file_name := ?n\<rparr>"
  have n: "?n \<noteq> []"
    by (rule shown_nonempty[OF False assms(5)]) (simp add: MAX_FILES_TO_DISPLAY_def)
  show ?thesis
  proof (cases "fault w 8")
    case (Some x)
    with assms(1) False have "e = Some x" "r' = r" by (auto simp: put_file_name_def attempt_def)
    with assms(2,3,4) show ?thesis by (simp add: fields_post_raise names_post_raise)
  next
    case None
    with assms(1) False have s: "step_doi w html_content sp page_text paper_doi ?r1 = (e, r')"
      by (simp add: put_file_name_def attempt_def shown_def)
    have "file_formats ?r1 = []" "dataset_doi ?r1 = []" using assms(2,3) by simp_all
    from step_doi_post[OF s this]
    have p: "fields_post w html_content sp ?r1 e r'"
      and d: "dataset_doi r' = [] \<or> dataset_doi r' = extract_dataset_doi page_text paper_doi"
      and f: "file_name r' = ?n"
      and c: "e = None \<longrightarrow> dataset_doi r' = extract_dataset_doi page_text paper_doi"
      using n by auto
    from fields_post_update[OF p] have "fields_post w html_content sp r e r'" by simp
    with d f c False show ?thesis by (simp add: names_post_def)
  qed
qed

lemma html_file_names_post:
  assumes "html_file_names w html_content sp page_text paper_doi from_api r = (e, r')"
    and "file_formats r = []" and "dataset_doi r = []" and "file_name r = []"
    and "[] \<notin> set from_api"
  shows "fields_post w html_content sp r e r'
       \<and> names_post w page_text paper_doi
            (if from_api = [] then extract_filenames_from_html html_content else from_api) e r'"
proof (cases "from_api = []")
  case False
  with assms(1) have "put_file_name w html_content sp page_text paper_doi from_api r = (e, r')"
    by (simp add: html_file_names_def)
  from put_file_name_post[OF this assms(2,3,4,5)] False show ?thesis by simp
next
  case True
  show ?thesis
  proof (cases "fault w 7")
    case (Some x)
    with assms(1) True have "e = Some x" "r' = r" by (auto simp: html_file_names_def attempt_def)
    with assms(2,3,4) show ?thesis by (simp add: fields_post_raise names_post_raise)
  next
    case None
    with assms(1) True
    have "put_file_name w html_content sp page_text paper_doi
            (extract_filenames_from_html html_content) r = (e, r')"
      by (simp add: html_file_names_def attempt_def)
    from put_file_name_post[OF this assms(2,3,4) extract_filenames_nonempty] True
    show ?thesis by simp
  qed
qed

lemma step_files_post:
  assumes "step_files w link html_content sp page_text paper_doi r = (e, r')"
    and "file_formats r = []" and "dataset_doi r = []" and "file_name r = []"
    and "repository r = identify_repository link"
  shows "fields_post w html_content sp r e r'
       \<and> names_post w page_text paper_doi (extracted_filenames w link html_content) e r'"
proof (cases "repository r = ''Mendeley Data''")
  case False
  with assms(1)
  have "html_file_names w html_content sp page_text paper_doi [] r = (e, r')"
    by (simp add: step_files_def)
  from html_file_names_post[OF this assms(2,3,4)] False assms(5) show ?thesis
    by (simp add: extracted_filenames_def)
next
  case True
  show ?thesis
  proof (cases "fault w 6")
    case (Some x)
    with assms(1) True have "e = Some x" "r' = r" by (auto simp: step_files_def attempt_def)
    with assms(2,3,4) show ?thesis by (simp add: fields_post_raise names_post_raise)
  next
    case None
    with assms(1) True
    have "html_file_names w html_content sp page_text paper_doi
            (extract_mendeley_files w link) r = (e, r')"
      by (simp add: step_files_def attempt_def)
    from html_file_names_post[OF this assms(2,3,4) extract_mendeley_files_nonempty] True assms(5)
    show ?thesis by (simp add: extracted_filenames_def Let_def)
  qed
qed

text \<open>The body as a whole, for a request that was answered and a page that was parsed.\<close>

lemma try_body_post:
  assumes "requests_get w link = Inr resp" and "http_error resp = None"
    and "BeautifulSoup w (resp_text resp) = Inr sp"
    and "try_body w link paper_doi (initial_result link) = (e, r')"
  shows "fields_post w (resp_text resp) sp (initial_result link) e r'
       \<and> names_post w (get_text_strip sp) paper_doi
            (extracted_filenames w link (resp_text resp)) e r'"
proof -
  let ?r = "initial_result link"
  have i: "file_formats ?r = []" "dataset_doi ?r = []" "file_name ?r = []"
    by (simp_all add: initial_result_def)
  have rs: "raise_for_status resp = Inr ()" using assms(2) by (simp add: raise_for_status_def)
  have stop: ?thesis if "e = Some x" "r' = ?r" for x
    using that i by (simp add: fields_post_raise names_post_raise)
  show ?thesis
  proof (cases "fault w 4")
    case (Some x)
    with assms rs have "e = Some x" "r' = ?r" by (auto simp: try_body_def attempt_def)
    then show ?thesis by (rule stop)
  next
    case n4: None
    show ?thesis
    proof (cases "fault w 5")
      case (Some x)
      with assms rs n4 have "e = Some x" "r' = ?r" by (auto simp: try_body_def attempt_def Let_def)
      then show ?thesis by (rule stop)
    next
      case n5: None
      let ?repo = "identify_repository link"
      let ?r1 = "?r\<lparr>repository := ?repo\<rparr>"
      let ?r2 = "if ?repo \<noteq> [] then ?r1\<lparr>fair_score := fair_score ?r1 + 1\<rparr> else ?r1"
      from assms rs n4 n5
      have s: "step_files w link (resp_text resp) sp (get_text_strip sp) paper_doi ?r2 = (e, r')"
        by (simp add: try_body_def attempt_def Let_def)
      have "file_formats ?r2 = []" "dataset_doi ?r2 = []" "file_name ?r2 = []"
        "repository ?r2 = identify_repository link"
        using i by simp_all
      from step_files_post[OF s this]
      have p: "fields_post w (resp_text resp) sp ?r2 e r'"
        and n: "names_post w (get_text_strip sp) paper_doi
                  (extracted_filenames w link (resp_text resp)) e r'"
        by simp_all
      from fields_post_update[OF p, of ?r] have "fields_post w (resp_text resp) sp ?r e r'"
        by simp
      with n show ?thesis by simp
    qed
  qed
qed

section \<open>The result of assess\_dataset\_url\<close>

lemma describe_cases:
  "(\<exists>rest. describe e = ''Error: '' @ rest) \<or> (\<exists>rest. describe e = ''Parse Error: '' @ rest)"
  by (cases e) (auto simp: describe_def split: exn_class.splits)


lemma try_body_raises:
  "requests_get w link = Inl x \<Longrightarrow> try_body w link paper_doi r = (Some x, r)"
  "requests_get w link = Inr resp \<Longrightarrow> http_error resp = Some msg \<Longrightarrow>
     try_body w link paper_doi r = (Some (Exn RequestException msg), r)"
  "requests_get w link = Inr resp \<Longrightarrow> http_error resp = None \<Longrightarrow>
     BeautifulSoup w (resp_text resp) = Inl x \<Longrightarrow> try_body w link paper_doi r = (Some x, r)"
  by (simp_all add: try_body_def raise_for_status_def)

lemma try_body_url:
  assumes "try_body w link paper_doi (initial_result link) = (e, r')"
  shows "url r' = link \<and> completed e (initial_result link) r'"
proof (cases "requests_get w link")
  case (Inl x)
  from try_body_raises(1)[OF this] assms show ?thesis
    by (auto simp: completed_def initial_result_def)
next
  case (Inr resp)
  show ?thesis
  proof (cases "http_error resp")
    case (Some msg)
    from try_body_raises(2)[OF Inr this] assms show ?thesis
      by (auto simp: completed_def initial_result_def)
  next
    case None
    show ?thesis
    proof (cases "BeautifulSoup w (resp_text resp)")
      case (Inl x)
      from try_body_raises(3)[OF Inr None this] assms show ?thesis
        by (auto simp: completed_def initial_result_def)
    next
      case sp: (Inr sp)
      from try_body_post[OF Inr None sp assms] show ?thesis
        by (simp add: fields_post_def initial_result_def)
    qed
  qed
qed

lemma assess_outcome:
  assumes "try_body w link paper_doi (initial_result link) = (e, r0)"
  shows "assess_dataset_url w link paper_doi =
           Inr (case e of None \<Rightarrow> r0 | Some x \<Rightarrow> r0\<lparr>accessibility := describe x\<rparr>)"
  by (simp add: assess_cases assms split: option.splits)

lemma timeout_outcome:
  assumes "requests_get w link = Inl (Exn Timeout msg)"
  shows "assess_dataset_url w link paper_doi =
           Inr ((initial_result link)\<lparr>accessibility := ''Error: Request timeout''\<rparr>)"
  using assess_outcome[OF try_body_raises(1)[OF assms]] by (simp add: describe_def)

section \<open>What the two list fields show\<close>





section \<open>A run on a Mendeley Data link\<close>



section \<open>The claims\<close>

text \<open>
  Claim C1. For every URL and paper DOI, and whatever the requests return or raise and
  whichever call of the body raises, \<open>assess_dataset_url\<close> returns a record whose
  \<open>fair_score\<close> is the number of non-empty values among its fields \<open>repository\<close>,
  \<open>dataset_doi\<close>, \<open>file_formats\<close> and \<open>license\<close>, and so is one of 0, 1, 2, 3, 4.
\<close>

theorem fair_score_counts_signals:
  "\<exists>r. assess_dataset_url w link paper_doi = Inr r
      \<and> fair_score r = int (length (filter (\<lambda>s. s \<noteq> [])
                                 [repository r, dataset_doi r, file_formats r, license r]))
      \<and> fair_score r \<in> {0, 1, 2, 3, 4}"
proof -
  obtain e r0 where t: "try_body w link paper_doi (initial_result link) = (e, r0)"
    by (cases "try_body w link paper_doi (initial_result link)") auto
  from try_body_score[of w link paper_doi] t have ok: "score_ok r0" by simp
  define r where "r = (case e of None \<Rightarrow> r0 | Some x \<Rightarrow> r0\<lparr>accessibility := describe x\<rparr>)"
  have a: "assess_dataset_url w link paper_doi = Inr r"
    by (simp add: assess_cases t r_def split: option.splits)
  have ok': "score_ok r" using ok by (simp add: r_def score_ok_def signals_def split: option.splits)
  then have c: "fair_score r = int (length (filter (\<lambda>s. s \<noteq> [])
                                 [repository r, dataset_doi r, file_formats r, license r]))"
    by (simp add: score_ok_def signals_def)
  have "length (filter (\<lambda>s. s \<noteq> []) [repository r, dataset_doi r, file_formats r, license r]) \<le> 4"
    using length_filter_le[of "\<lambda>s. s \<noteq> []" "[repository r, dataset_doi r, file_formats r, license r]"]
    by simp
  with c have "0 \<le> fair_score r \<and> fair_score r \<le> 4" by linarith
  then have "fair_score r \<in> {0, 1, 2, 3, 4}" by auto
  with a c show ?thesis by blast
qed



lemma py_or_first_nonempty:
  "py_or (py_or a b) c = first_nonempty [a, b, c]"
  by (simp add: py_or_def first_nonempty_def)

lemma first_nonempty_member:
  "first_nonempty xs = [] \<or> first_nonempty xs \<in> set xs"
proof (cases "filter (\<lambda>s. s \<noteq> []) xs")
  case Nil
  then show ?thesis by (simp add: first_nonempty_def)
next
  case (Cons x rest)
  then have "x \<in> set (filter (\<lambda>s. s \<noteq> []) xs)" by simp
  then have "x \<in> set xs" by simp
  with Cons show ?thesis by (simp add: first_nonempty_def)
qed

text \<open>
  Claim C5. For each of title, authors and journal independently, the reconciled value is
  the value of the first source in the order Europe PMC, Crossref, HTML meta tags that
  returned a non-empty string, and is empty when all three returned empty; the merged
  value is one of the three source values as a whole (no mixing of parts), and it is a
  function of the three responses alone, so identical responses give identical results.
\<close>

theorem reconcile_priority:
  "sf_title (reconcile e c m) = first_nonempty [sf_title e, sf_title c, sf_title m]
   \<and> sf_authors (reconcile e c m) = first_nonempty [sf_authors e, sf_authors c, sf_authors m]
   \<and> sf_journal (reconcile e c m) = first_nonempty [sf_journal e, sf_journal c, sf_journal m]
   \<and> sf_title (reconcile e c m) \<in> {sf_title e, sf_title c, sf_title m}
   \<and> sf_authors (reconcile e c m) \<in> {sf_authors e, sf_authors c, sf_authors m}
   \<and> sf_journal (reconcile e c m) \<in> {sf_journal e, sf_journal c, sf_journal m}
   \<and> (sf_title e = [] \<and> sf_title c = [] \<and> sf_title m = [] \<longrightarrow> sf_title (reconcile e c m) = [])
   \<and> (sf_authors e = [] \<and> sf_authors c = [] \<and> sf_authors m = [] \<longrightarrow> sf_authors (reconcile e c m) = [])
   \<and> (sf_journal e = [] \<and> sf_journal c = [] \<and> sf_journal m = [] \<longrightarrow> sf_journal (reconcile e c m) = [])
   \<and> (e = e' \<and> c = c' \<and> m = m' \<longrightarrow> reconcile e c m = reconcile e' c' m')"
  by (simp add: reconcile_def py_or_first_nonempty) (simp add: first_nonempty_def)

theorem reconcile_priority_witness:
  "sf_title (reconcile
      \<lparr>sf_title = [], sf_authors = [], sf_journal = []\<rparr>
      \<lparr>sf_title = ''T'', sf_authors = [], sf_journal = ''J''\<rparr>
      \<lparr>sf_title = ''U'', sf_authors = [], sf_journal = ''K''\<rparr>) = ''T''
   \<and> sf_authors (reconcile
      \<lparr>sf_title = [], sf_authors = [], sf_journal = []\<rparr>
      \<lparr>sf_title = ''T'', sf_authors = [], sf_journal = ''J''\<rparr>
      \<lparr>sf_title = ''U'', sf_authors = [], sf_journal = ''K''\<rparr>) = []"
  using reconcile_priority
    [of "\<lparr>sf_title = [], sf_authors = [], sf_journal = []\<rparr>"
        "\<lparr>sf_title = ''T'', sf_authors = [], sf_journal = ''J''\<rparr>"
        "\<lparr>sf_title = ''U'', sf_authors = [], sf_journal = ''K''\<rparr>"
        "\<lparr>sf_title = [], sf_authors = [], sf_journal = []\<rparr>"
        "\<lparr>sf_title = ''T'', sf_authors = [], sf_journal = ''J''\<rparr>"
        "\<lparr>sf_title = ''U'', sf_authors = [], sf_journal = ''K''\<rparr>"]
  by (simp add: first_nonempty_def)

text \<open>
  Claim C7. When the request for the dataset URL raises a timeout, the record returned
  has \<open>accessibility\<close> equal to \<open>Error: Request timeout\<close>, \<open>fair_score\<close> 0 and empty
  \<open>dataset_doi\<close>, \<open>file_name\<close>, \<open>file_formats\<close>, \<open>license\<close> and \<open>repository\<close>: the
  initial record with only \<open>accessibility\<close> changed.
\<close>

theorem timeout_record:
  assumes "requests_get w link = Inl (Exn Timeout msg)"
  shows "assess_dataset_url w link paper_doi =
           Inr \<lparr> url = link, dataset_doi = [], file_name = [], file_formats = [],
                 license = [], repository = [], accessibility = ''Error: Request timeout'',
                 fair_score = 0 \<rparr>"
proof -
  have "try_body w link paper_doi (initial_result link)
          = (Some (Exn Timeout msg), initial_result link)"
    using assms by (simp add: try_body_def)
  then show ?thesis
    by (simp add: assess_cases describe_def initial_result_def)
qed

theorem timeout_record_witness:
  "assess_dataset_url world_timeout ''https://zenodo.org/records/1'' ''10.1000/paper1'' =
     Inr \<lparr> url = ''https://zenodo.org/records/1'', dataset_doi = [], file_name = [],
           file_formats = [], license = [], repository = [],
           accessibility = ''Error: Request timeout'', fair_score = 0 \<rparr>"
  by (rule timeout_record[where msg = "''Read timed out''"]) (simp add: world_timeout_def)


text \<open>
  Claim C9. \<open>assess_dataset_url\<close> never lets an exception reach its caller: whatever the
  request, the parser or any later call raises, the result is a record (\<open>Inr\<close>) with the
  eight keys \<open>url\<close>, \<open>dataset_doi\<close>, \<open>file_name\<close>, \<open>file_formats\<close>, \<open>license\<close>,
  \<open>repository\<close>, \<open>accessibility\<close> and \<open>fair_score\<close>. Its \<open>accessibility\<close> is
  \<open>Accessible\<close> when the body ran to its end and the text of the \<open>except\<close> clause
  otherwise, in particular when the request, the status check or the parse failed; that
  text starts with \<open>Error: \<close> or \<open>Parse Error: \<close>.
\<close>

theorem assess_never_raises:
  "\<exists>r. assess_dataset_url w link paper_doi = Inr r
      \<and> r = \<lparr> url = link, dataset_doi = dataset_doi r, file_name = file_name r,
              file_formats = file_formats r, license = license r, repository = repository r,
              accessibility = accessibility r, fair_score = fair_score r \<rparr>
      \<and> accessibility r =
           (case fst (try_body w link paper_doi (initial_result link)) of
              None \<Rightarrow> ''Accessible'' | Some e \<Rightarrow> describe e)
      \<and> (\<forall>e. requests_get w link = Inl e \<longrightarrow> accessibility r = describe e)
      \<and> (\<forall>resp msg. requests_get w link = Inr resp \<and> http_error resp = Some msg
            \<longrightarrow> accessibility r = ''Error: '' @ take 100 msg)
      \<and> (\<forall>resp e. requests_get w link = Inr resp \<and> http_error resp = None
             \<and> BeautifulSoup w (resp_text resp) = Inl e
            \<longrightarrow> accessibility r = describe e)
      \<and> (\<forall>e. (\<exists>rest. describe e = ''Error: '' @ rest)
             \<or> (\<exists>rest. describe e = ''Parse Error: '' @ rest))"
proof -
  obtain e r0 where t: "try_body w link paper_doi (initial_result link) = (e, r0)"
    by (cases "try_body w link paper_doi (initial_result link)") auto
  define r where "r = (case e of None \<Rightarrow> r0 | Some x \<Rightarrow> r0\<lparr>accessibility := describe x\<rparr>)"
  have a: "assess_dataset_url w link paper_doi = Inr r"
    unfolding r_def by (rule assess_outcome[OF t])
  from try_body_url[OF t] have u: "url r0 = link" and c: "completed e (initial_result link) r0"
    by simp_all
  have ur: "url r = link" using u by (simp add: r_def split: option.splits)
  have eight: "r = \<lparr> url = link, dataset_doi = dataset_doi r, file_name = file_name r,
              file_formats = file_formats r, license = license r, repository = repository r,
              accessibility = accessibility r, fair_score = fair_score r \<rparr>"
    using ur by (cases r) simp
  have acc: "accessibility r = (case e of None \<Rightarrow> ''Accessible'' | Some x \<Rightarrow> describe x)"
    using c by (simp add: r_def completed_def split: option.splits)
  have f1: "accessibility r = describe x" if "requests_get w link = Inl x" for x
    using try_body_raises(1)[OF that, of paper_doi "initial_result link"] t acc by simp
  have f2: "accessibility r = ''Error: '' @ take 100 msg"
    if "requests_get w link = Inr resp" "http_error resp = Some msg" for resp msg
    using try_body_raises(2)[OF that, of paper_doi "initial_result link"] t acc
    by (simp add: describe_def)
  have f3: "accessibility r = describe x"
    if "requests_get w link = Inr resp" "http_error resp = None"
       "BeautifulSoup w (resp_text resp) = Inl x" for resp x
    using try_body_raises(3)[OF that, of paper_doi "initial_result link"] t acc by simp
  from a eight acc t f1 f2 f3 describe_cases show ?thesis
    by (intro exI[of _ r] conjI) auto
qed

theorem assess_never_raises_witness:
  "\<exists>r. assess_dataset_url world_timeout ''https://zenodo.org/records/1'' ''10.1000/paper1'' = Inr r
      \<and> accessibility r = ''Error: Request timeout''"
proof -
  let ?l = "''https://zenodo.org/records/1''"
  from assess_never_raises[of world_timeout ?l "''10.1000/paper1''"]
  obtain r where a: "assess_dataset_url world_timeout ?l ''10.1000/paper1'' = Inr r"
    and f: "\<forall>e. requests_get world_timeout ?l = Inl e \<longrightarrow> accessibility r = describe e"
    by blast
  have "requests_get world_timeout ?l = Inl (Exn Timeout ''Read timed out'')"
    by (simp add: world_timeout_def)
  with f have "accessibility r = describe (Exn Timeout ''Read timed out'')" by blast
  then have "accessibility r = ''Error: Request timeout''" by (simp add: describe_def)
  with a show ?thesis by blast
qed



end
